theory Spec2Isabelle
  imports Main "HOL-Library.Word"
begin

unbundle bit_operations_syntax

section \<open>Bytes, errors and the platform\<close>

text \<open>
  A Go \<^verbatim>\<open>[]byte\<close> is a list of 8-bit words; a Go \<^verbatim>\<open>string\<close> that holds
  text (an identifier, a base64 envelope, the content of the database file) is a
  \<^typ>\<open>string\<close>.
\<close>

type_synonym byte = "8 word"

text \<open>
  Go errors are values. \<open>Wrap msg e\<close> is \<^verbatim>\<open>fmt.Errorf("msg: %w", e)\<close>; the other
  constructors are the errors the storage package creates itself or receives from the
  standard library.
\<close>

datatype failure =
    SizeExceeded nat nat
  | LimitFull
  | LimitWarn int
  | ItemNotFound
  | CiphertextTooShort
  | KeySizeError nat
  | EOF
  | UnexpectedEOF
  | CorruptInput
  | AuthenticationFailed
  | SyntaxError
  | AppDataNotSet
  | MachineIdUnavailable
  | ErrNotExist
  | ErrPermission
  | Wrap string failure

section \<open>encoding/base64, the standard padded encoding\<close>

definition encodeStd :: string where
  "encodeStd = ''ABCDEFGHIJKLMNOPQRSTUVWXYZabcdefghijklmnopqrstuvwxyz0123456789+/''"

definition enc6 :: "nat \<Rightarrow> char" where
  "enc6 v = encodeStd ! (v mod 64)"

fun index_of :: "'a \<Rightarrow> 'a list \<Rightarrow> nat option" where
  "index_of x [] = None"
| "index_of x (y # ys) = (if x = y then Some 0 else map_option Suc (index_of x ys))"

definition dec6 :: "char \<Rightarrow> nat option" where
  "dec6 c = index_of c encodeStd"

fun base64_EncodeToString :: "byte list \<Rightarrow> string" where
  "base64_EncodeToString (a # b # c # rest) =
     (let val = unat a * 65536 + unat b * 256 + unat c in
      enc6 (val div 262144) # enc6 (val div 4096) # enc6 (val div 64) # enc6 val #
      base64_EncodeToString rest)"
| "base64_EncodeToString [a, b] =
     (let val = unat a * 65536 + unat b * 256 in
      [enc6 (val div 262144), enc6 (val div 4096), enc6 (val div 64), CHR ''=''])"
| "base64_EncodeToString [a] =
     (let val = unat a * 65536 in
      [enc6 (val div 262144), enc6 (val div 4096), CHR ''='', CHR ''=''])"
| "base64_EncodeToString [] = []"

definition quantum :: "nat \<Rightarrow> nat \<Rightarrow> nat \<Rightarrow> nat \<Rightarrow> nat" where
  "quantum x y z w = x * 262144 + y * 4096 + z * 64 + w"

text \<open>
  Decoding reads quanta of four characters. Padding is accepted only in the last
  quantum, as \<open>==\<close> after two characters or \<open>=\<close> after three; every other
  character outside the alphabet is corrupt input, and so is an incomplete last quantum.
\<close>

fun decodeQuanta :: "string \<Rightarrow> byte list option" where
  "decodeQuanta [] = Some []"
| "decodeQuanta [a, b, c, d] =
     (if c = CHR ''='' then
        (if d = CHR ''='' then
           (case (dec6 a, dec6 b) of
              (Some x, Some y) \<Rightarrow> Some [of_nat (quantum x y 0 0 div 65536)]
            | _ \<Rightarrow> None)
         else None)
      else if d = CHR ''='' then
        (case (dec6 a, dec6 b, dec6 c) of
           (Some x, Some y, Some z) \<Rightarrow>
             Some [of_nat (quantum x y z 0 div 65536), of_nat (quantum x y z 0 div 256)]
         | _ \<Rightarrow> None)
      else
        (case (dec6 a, dec6 b, dec6 c, dec6 d) of
           (Some x, Some y, Some z, Some w) \<Rightarrow>
             Some [of_nat (quantum x y z w div 65536), of_nat (quantum x y z w div 256),
                   of_nat (quantum x y z w)]
         | _ \<Rightarrow> None))"
| "decodeQuanta (a # b # c # d # rest) =
     (case (dec6 a, dec6 b, dec6 c, dec6 d) of
        (Some x, Some y, Some z, Some w) \<Rightarrow>
          map_option
            (\<lambda>bs. of_nat (quantum x y z w div 65536) # of_nat (quantum x y z w div 256) #
                   of_nat (quantum x y z w) # bs)
            (decodeQuanta rest)
      | _ \<Rightarrow> None)"
| "decodeQuanta _ = None"

text \<open>Carriage returns and line feeds are skipped wherever they stand.\<close>

definition base64_DecodeString :: "string \<Rightarrow> byte list option" where
  "base64_DecodeString s =
     decodeQuanta (filter (\<lambda>c. c \<noteq> CHR 0x0A \<and> c \<noteq> CHR 0x0D) s)"

section \<open>crypto/cipher, Galois/Counter Mode over a 128-bit block cipher\<close>

text \<open>
  The block cipher is a parameter: a function on 128-bit blocks. Blocks are read from
  and written to byte strings big-endian.
\<close>

definition block_to_bytes :: "128 word \<Rightarrow> byte list" where
  "block_to_bytes w = map (\<lambda>i. ucast (drop_bit (8 * (15 - i)) w)) [0..<16]"

definition bytes_to_block :: "byte list \<Rightarrow> 128 word" where
  "bytes_to_block bs =
     foldl (\<lambda>acc b. push_bit 8 acc OR ucast b) 0 (take 16 (bs @ replicate 16 0))"

fun blocks_of :: "byte list \<Rightarrow> 128 word list" where
  "blocks_of [] = []"
| "blocks_of (x # xs) = bytes_to_block (take 16 (x # xs)) # blocks_of (drop 15 xs)"

text \<open>Multiplication in GF(2^128), bits numbered from the most significant one.\<close>

definition gf_step :: "128 word \<Rightarrow> nat \<Rightarrow> 128 word \<times> 128 word \<Rightarrow> 128 word \<times> 128 word" where
  "gf_step X i zv =
     (case zv of (Z, V) \<Rightarrow>
        (if bit X (127 - i) then Z XOR V else Z,
         if bit V 0 then drop_bit 1 V XOR push_bit 120 0xE1 else drop_bit 1 V))"

definition gf_mul :: "128 word \<Rightarrow> 128 word \<Rightarrow> 128 word" where
  "gf_mul X Y = fst (fold (gf_step X) [0..<128] (0, Y))"

definition ghash :: "128 word \<Rightarrow> 128 word list \<Rightarrow> 128 word" where
  "ghash H xs = foldl (\<lambda>y x. gf_mul (y XOR x) H) 0 xs"

text \<open>The counter: the low 32 bits of the block are incremented modulo 2^32.\<close>

definition inc32 :: "128 word \<Rightarrow> 128 word" where
  "inc32 cb = push_bit 32 (drop_bit 32 cb) OR ucast ((ucast cb :: 32 word) + 1)"

fun gctr_stream :: "(128 word \<Rightarrow> 128 word) \<Rightarrow> 128 word \<Rightarrow> nat \<Rightarrow> byte list" where
  "gctr_stream E cb 0 = []"
| "gctr_stream E cb (Suc n) = block_to_bytes (E cb) @ gctr_stream E (inc32 cb) n"

definition gctr :: "(128 word \<Rightarrow> 128 word) \<Rightarrow> 128 word \<Rightarrow> byte list \<Rightarrow> byte list" where
  "gctr E icb xs = map2 (XOR) xs (gctr_stream E icb ((length xs + 15) div 16))"

definition NonceSize :: nat where
  "NonceSize = 12"

definition TagSize :: nat where
  "TagSize = 16"

definition counter0 :: "byte list \<Rightarrow> 128 word" where
  "counter0 nonce = bytes_to_block (take 12 nonce @ [0, 0, 0, 1])"

definition gcm_tag ::
  "(128 word \<Rightarrow> 128 word) \<Rightarrow> byte list \<Rightarrow> byte list \<Rightarrow> byte list \<Rightarrow> byte list" where
  "gcm_tag E nonce ct aad =
     (let H = E 0;
          lens = push_bit 64 (of_nat (8 * length aad)) OR of_nat (8 * length ct);
          S = ghash H (blocks_of aad @ blocks_of ct @ [lens])
      in block_to_bytes (E (counter0 nonce) XOR S))"

text \<open>
  \<open>gcm_Seal E dst nonce plaintext aad\<close> appends ciphertext and tag to \<open>dst\<close>;
  \<open>gcm_Open\<close> checks the tag before it decrypts. The nonce has \<open>NonceSize\<close> bytes
  at both call sites of the package. Byte buffers are lists of any length: the
  library's ceiling of 2^36 - 32 bytes for one message is not modelled, as memory
  limits are not.
\<close>

definition gcm_Seal ::
  "(128 word \<Rightarrow> 128 word) \<Rightarrow> byte list \<Rightarrow> byte list \<Rightarrow> byte list \<Rightarrow> byte list \<Rightarrow> byte list" where
  "gcm_Seal E dst nonce plaintext aad =
     (let ct = gctr E (inc32 (counter0 nonce)) plaintext
      in dst @ ct @ gcm_tag E nonce ct aad)"

definition gcm_Open ::
  "(128 word \<Rightarrow> 128 word) \<Rightarrow> byte list \<Rightarrow> byte list \<Rightarrow> byte list \<Rightarrow> failure + byte list" where
  "gcm_Open E nonce ciphertext aad =
     (if length ciphertext < TagSize then Inl AuthenticationFailed
      else
        let ct = take (length ciphertext - TagSize) ciphertext;
            tag = drop (length ciphertext - TagSize) ciphertext
        in if gcm_tag E nonce ct aad = tag
           then Inr (gctr E (inc32 (counter0 nonce)) ct)
           else Inl AuthenticationFailed)"

section \<open>The stored item and the platform the package runs on\<close>

record ClipboardItem =
  ID :: string
  Type :: string
  Content :: string
  Timestamp :: int
  Pinned :: bool
  Size :: int
  Hash :: string

text \<open>
  The fields of \<open>Database\<close> that carry data. The mutex is left out: every operation
  below is the body of one critical section. The callback \<open>onLimitWarn\<close> is stored but
  never called by the package, so it is left out as well.
\<close>

record Database =
  Items :: "ClipboardItem list"
  key :: "byte list"
  maxItems :: int

definition DefaultMaxItems :: int where
  "DefaultMaxItems = 100"

definition MaxItemSize :: nat where
  "MaxItemSize = 20 * 1024 * 1024"

definition DatabaseFile :: string where
  "DatabaseFile = ''clipboard.db''"

text \<open>
  The library functions whose results the package only passes on are parameters of the
  model: the AES block function under a key, SHA-256, the JSON codec for the item list
  (\<open>json_Unmarshal data v\<close> returns the error and the new value of the slice it was
  given), path joining, and the constants of the runtime.
\<close>

record platform =
  aes_block :: "byte list \<Rightarrow> 128 word \<Rightarrow> 128 word"
  sha256_Sum256 :: "byte list \<Rightarrow> byte list"
  json_Marshal :: "ClipboardItem list \<Rightarrow> failure + byte list"
  json_Unmarshal :: "byte list \<Rightarrow> ClipboardItem list \<Rightarrow> failure option \<times> ClipboardItem list"
  filepath_Join :: "string list \<Rightarrow> string"
  GOOS :: string
  GOARCH :: string

text \<open>
  What the outside world answers during one call: the environment variable, the outcome
  of creating the directory, of reading and of writing the file, the machine identifier,
  the bytes \<open>crypto/rand\<close> has ready at the n-th read of the call and the clock at the
  n-th reading of the call (nanoseconds since the epoch). A failed write leaves whatever
  the operating system left at the path.
\<close>

datatype write_outcome = WriteOk | WriteFails failure "string option"

record env =
  APPDATA :: string
  mkdir_result :: "failure option"
  read_result :: "failure option"
  write_result :: write_outcome
  machine_id :: "failure + string"
  rand_reads :: "nat \<Rightarrow> byte list"
  clock :: "nat \<Rightarrow> int"

type_synonym filesystem = "string \<rightharpoonup> string"

section \<open>crypto.go\<close>

definition aes_NewCipher :: "platform \<Rightarrow> byte list \<Rightarrow> failure + (128 word \<Rightarrow> 128 word)" where
  "aes_NewCipher P k =
     (if length k = 16 \<or> length k = 24 \<or> length k = 32 then Inr (aes_block P k)
      else Inl (KeySizeError (length k)))"

text \<open>\<^verbatim>\<open>io.ReadFull\<close> on a source that has \<open>available\<close> ready: a source that
  ends early gives \<open>EOF\<close> when no byte was read and \<open>UnexpectedEOF\<close> otherwise.\<close>

definition io_ReadFull :: "byte list \<Rightarrow> nat \<Rightarrow> failure + byte list" where
  "io_ReadFull available n =
     (if length available < n
      then (if available = [] then Inl EOF else Inl UnexpectedEOF)
      else Inr (take n available))"

text \<open>
  \<open>Encrypt P rnd plaintext k\<close>: \<open>rnd\<close> is what the random source yields for this
  call. \<open>cipher.NewGCM\<close> fails only for a block size other than 16 bytes, which AES never
  has, so that branch of the source has no counterpart.
\<close>

definition Encrypt :: "platform \<Rightarrow> byte list \<Rightarrow> byte list \<Rightarrow> byte list \<Rightarrow> failure + string" where
  "Encrypt P rnd plaintext k =
     (case aes_NewCipher P k of
        Inl err \<Rightarrow> Inl (Wrap ''failed to create cipher'' err)
      | Inr block \<Rightarrow>
          (case io_ReadFull rnd NonceSize of
             Inl err \<Rightarrow> Inl (Wrap ''failed to generate nonce'' err)
           | Inr nonce \<Rightarrow>
               Inr (base64_EncodeToString (gcm_Seal block nonce nonce plaintext []))))"

definition Decrypt :: "platform \<Rightarrow> string \<Rightarrow> byte list \<Rightarrow> failure + byte list" where
  "Decrypt P ciphertext k =
     (case base64_DecodeString ciphertext of
        None \<Rightarrow> Inl (Wrap ''failed to decode base64'' CorruptInput)
      | Some data \<Rightarrow>
          (case aes_NewCipher P k of
             Inl err \<Rightarrow> Inl (Wrap ''failed to create cipher'' err)
           | Inr block \<Rightarrow>
               if length data < NonceSize then Inl CiphertextTooShort
               else
                 (case gcm_Open block (take NonceSize data) (drop NonceSize data) [] of
                    Inl err \<Rightarrow> Inl (Wrap ''failed to decrypt'' err)
                  | Inr plaintext \<Rightarrow> Inr plaintext)))"

section \<open>database.go\<close>

subsection \<open>Formatting and slicing\<close>

definition hex_digit :: "nat \<Rightarrow> char" where
  "hex_digit n = ''0123456789abcdef'' ! (n mod 16)"

text \<open>\<^verbatim>\<open>fmt.Sprintf("%x", digest)\<close>: two lower-case hexadecimal digits per byte.\<close>

definition hex_of_bytes :: "byte list \<Rightarrow> string" where
  "hex_of_bytes bs = concat (map (\<lambda>b. [hex_digit (unat b div 16), hex_digit (unat b)]) bs)"

function dec_of_nat :: "nat \<Rightarrow> string" where
  "dec_of_nat n =
     (if n < 10 then [''0123456789'' ! n]
      else dec_of_nat (n div 10) @ [''0123456789'' ! (n mod 10)])"
  by pat_completeness auto
termination
  by (relation "measure id") auto

declare dec_of_nat.simps [simp del]

text \<open>\<^verbatim>\<open>fmt.Sprintf("%d", n)\<close>.\<close>

definition itoa :: "int \<Rightarrow> string" where
  "itoa n = (if n < 0 then CHR ''-'' # dec_of_nat (nat (- n)) else dec_of_nat (nat n))"

definition bytes_of_string :: "string \<Rightarrow> byte list" where
  "bytes_of_string s = map (\<lambda>c. of_nat (of_char c)) s"

text \<open>
  The slice expression \<^verbatim>\<open>xs[:n]\<close>; \<open>None\<close> is the run-time panic for a bound out
  of range. Both uses below are guarded by \<^verbatim>\<open>len(xs) > n\<close>, so the bound is compared
  with the length.
\<close>

definition slice_to :: "'a list \<Rightarrow> int \<Rightarrow> 'a list option" where
  "slice_to xs n = (if 0 \<le> n \<and> n \<le> int (length xs) then Some (take (nat n) xs) else None)"

text \<open>The index of the first element a \<^verbatim>\<open>for i, x := range xs\<close> loop stops at.\<close>

fun index_where :: "('a \<Rightarrow> bool) \<Rightarrow> 'a list \<Rightarrow> nat option" where
  "index_where p [] = None"
| "index_where p (x # xs) = (if p x then Some 0 else map_option Suc (index_where p xs))"

subsection \<open>Key, path, load and save\<close>

definition GetHardwareKey :: "platform \<Rightarrow> env \<Rightarrow> failure + byte list" where
  "GetHardwareKey P e =
     (case machine_id e of
        Inl err \<Rightarrow> Inl (Wrap ''failed to get machine ID'' err)
      | Inr machineID \<Rightarrow>
          Inr (sha256_Sum256 P
                 (bytes_of_string (machineID @ ''-'' @ GOOS P @ ''-'' @ GOARCH P))))"

definition GetDatabasePath :: "platform \<Rightarrow> env \<Rightarrow> failure + string" where
  "GetDatabasePath P e =
     (if APPDATA e = [] then Inl AppDataNotSet
      else
        let panoDir = filepath_Join P [APPDATA e, ''Pano''] in
        (case mkdir_result e of
           Some err \<Rightarrow> Inl (Wrap ''failed to create Pano directory'' err)
         | None \<Rightarrow> Inr (filepath_Join P [panoDir, DatabaseFile])))"

text \<open>\<^verbatim>\<open>os.ReadFile\<close>: a missing file is \<open>ErrNotExist\<close>; a file that is there may
  still fail to be read.\<close>

definition os_ReadFile :: "env \<Rightarrow> filesystem \<Rightarrow> string \<Rightarrow> failure + string" where
  "os_ReadFile e fs path =
     (case fs path of
        None \<Rightarrow> Inl ErrNotExist
      | Some content \<Rightarrow> (case read_result e of Some err \<Rightarrow> Inl err | None \<Rightarrow> Inr content))"

definition os_WriteFile :: "env \<Rightarrow> filesystem \<Rightarrow> string \<Rightarrow> string \<Rightarrow> failure option \<times> filesystem" where
  "os_WriteFile e fs path content =
     (case write_result e of
        WriteOk \<Rightarrow> (None, fs(path \<mapsto> content))
      | WriteFails err left \<Rightarrow> (Some err, fs(path := left)))"

text \<open>\<^verbatim>\<open>os.IsNotExist\<close> recognises the errors of package \<open>os\<close> only, not one wrapped
  by \<^verbatim>\<open>fmt.Errorf\<close>.\<close>

definition os_IsNotExist :: "failure \<Rightarrow> bool" where
  "os_IsNotExist err = (err = ErrNotExist)"

definition Load :: "platform \<Rightarrow> env \<Rightarrow> Database \<Rightarrow> filesystem \<Rightarrow> failure option \<times> Database" where
  "Load P e db fs =
     (case GetDatabasePath P e of
        Inl err \<Rightarrow> (Some err, db)
      | Inr dbPath \<Rightarrow>
          (case os_ReadFile e fs dbPath of
             Inl err \<Rightarrow> (Some err, db)
           | Inr data \<Rightarrow>
               (case Decrypt P data (key db) of
                  Inl err \<Rightarrow> (Some (Wrap ''failed to decrypt database'' err), db)
                | Inr decrypted \<Rightarrow>
                    (case json_Unmarshal P decrypted (Items db) of
                       (Some err, items) \<Rightarrow>
                         (Some (Wrap ''failed to parse database'' err), db\<lparr>Items := items\<rparr>)
                     | (None, items) \<Rightarrow> (None, db\<lparr>Items := items\<rparr>)))))"

definition NewDatabase :: "platform \<Rightarrow> env \<Rightarrow> filesystem \<Rightarrow> failure + Database" where
  "NewDatabase P e fs =
     (case GetHardwareKey P e of
        Inl err \<Rightarrow> Inl (Wrap ''failed to get hardware key'' err)
      | Inr k \<Rightarrow>
          (case Load P e \<lparr>Items = [], key = k, maxItems = DefaultMaxItems\<rparr> fs of
             (Some err, db) \<Rightarrow> if \<not> os_IsNotExist err then Inl err else Inr db
           | (None, db) \<Rightarrow> Inr db))"

text \<open>\<open>saveInternal P e rnd db fs\<close>: \<open>rnd\<close> is what the random source yields for
  the nonce of this save.\<close>

definition saveInternal ::
  "platform \<Rightarrow> env \<Rightarrow> byte list \<Rightarrow> Database \<Rightarrow> filesystem \<Rightarrow> failure option \<times> filesystem" where
  "saveInternal P e rnd db fs =
     (case GetDatabasePath P e of
        Inl err \<Rightarrow> (Some err, fs)
      | Inr dbPath \<Rightarrow>
          (case json_Marshal P (Items db) of
             Inl err \<Rightarrow> (Some (Wrap ''failed to marshal database'' err), fs)
           | Inr jsonData \<Rightarrow>
               (case Encrypt P rnd jsonData (key db) of
                  Inl err \<Rightarrow> (Some (Wrap ''failed to encrypt database'' err), fs)
                | Inr encrypted \<Rightarrow>
                    (case os_WriteFile e fs dbPath encrypted of
                       (Some err, fs') \<Rightarrow> (Some (Wrap ''failed to write database'' err), fs')
                     | (None, fs') \<Rightarrow> (None, fs')))))"

subsection \<open>Capacity\<close>

definition unpinnedCount :: "ClipboardItem list \<Rightarrow> int" where
  "unpinnedCount items = int (length (filter (\<lambda>item. \<not> Pinned item) items))"

definition IsNearLimit :: "Database \<Rightarrow> bool" where
  "IsNearLimit db = (int (length (Items db)) \<ge> maxItems db - 10)"

definition GetRemainingSlots :: "Database \<Rightarrow> int" where
  "GetRemainingSlots db =
     (let remaining = maxItems db - int (length (Items db))
      in if remaining < 0 then 0 else remaining)"

definition IsFull :: "Database \<Rightarrow> bool" where
  "IsFull db = (unpinnedCount (Items db) \<ge> maxItems db)"

definition enforceLimit :: "Database \<Rightarrow> Database option" where
  "enforceLimit db =
     (if int (length (Items db)) \<le> maxItems db then Some db
      else
        let pinnedItems = filter Pinned (Items db);
            unpinnedItems = filter (\<lambda>item. \<not> Pinned item) (Items db)
        in
        (case (if int (length pinnedItems) > maxItems db
               then slice_to pinnedItems (maxItems db) else Some pinnedItems) of
           None \<Rightarrow> None
         | Some pinnedItems' \<Rightarrow>
             let availableSlots = maxItems db - int (length pinnedItems') in
             (case (if int (length unpinnedItems) > availableSlots
                    then slice_to unpinnedItems availableSlots else Some unpinnedItems) of
                None \<Rightarrow> None
              | Some unpinnedItems' \<Rightarrow> Some (db\<lparr>Items := pinnedItems' @ unpinnedItems'\<rparr>))))"

text \<open>\<open>SetMaxItems\<close> returns nothing and drops the result of the save; \<open>None\<close> is a
  panic inside \<open>enforceLimit\<close>.\<close>

definition SetMaxItems ::
  "platform \<Rightarrow> env \<Rightarrow> int \<Rightarrow> Database \<Rightarrow> filesystem \<Rightarrow> (Database \<times> filesystem) option" where
  "SetMaxItems P e n db fs =
     (let max1 = (if n < 10 then 10 else n);
          max2 = (if max1 > 500 then 500 else max1)
      in case enforceLimit (db\<lparr>maxItems := max2\<rparr>) of
           None \<Rightarrow> None
         | Some db' \<Rightarrow> Some (db', snd (saveInternal P e (rand_reads e 0) db' fs)))"

subsection \<open>Mutations\<close>

text \<open>The duplicate branch of \<open>AddItem\<close>: the item at index \<open>i\<close> goes to the front
  with a new timestamp, the others keep their order.\<close>

definition moveToFront :: "nat \<Rightarrow> int \<Rightarrow> ClipboardItem list \<Rightarrow> ClipboardItem list" where
  "moveToFront i now items =
     (items ! i)\<lparr>Timestamp := now\<rparr> # (take i items @ drop (Suc i) items)"

text \<open>The item \<open>AddItem\<close> creates for a new content: the identifier is the first
  clock reading in decimal, the timestamp the second.\<close>

definition newItem :: "platform \<Rightarrow> env \<Rightarrow> string \<Rightarrow> byte list \<Rightarrow> string \<Rightarrow> ClipboardItem" where
  "newItem P e itemType content encrypted =
     \<lparr>ID = itoa (clock e 0), Type = itemType, Content = encrypted, Timestamp = clock e 1,
      Pinned = False, Size = int (length content),
      Hash = hex_of_bytes (sha256_Sum256 P content)\<rparr>"

definition AddItem ::
  "platform \<Rightarrow> env \<Rightarrow> string \<Rightarrow> byte list \<Rightarrow> Database \<Rightarrow> filesystem
   \<Rightarrow> failure option \<times> Database \<times> filesystem" where
  "AddItem P e itemType content db fs =
     (if length content > MaxItemSize
      then (Some (SizeExceeded (length content) MaxItemSize), db, fs)
      else
        let contentHash = hex_of_bytes (sha256_Sum256 P content) in
        (case index_where (\<lambda>existing. Hash existing = contentHash \<and> Type existing = itemType)
                (Items db) of
           Some i \<Rightarrow>
             let db' = db\<lparr>Items := moveToFront i (clock e 0) (Items db)\<rparr>
             in (case saveInternal P e (rand_reads e 0) db' fs of (r, fs') \<Rightarrow> (r, db', fs'))
         | None \<Rightarrow>
             if unpinnedCount (Items db) \<ge> maxItems db then (Some LimitFull, db, fs)
             else
               let remaining = maxItems db - unpinnedCount (Items db) - 1;
                   warnNeeded = (remaining \<le> 10 \<and> remaining \<ge> 0)
               in
               (case Encrypt P (rand_reads e 0) content (key db) of
                  Inl err \<Rightarrow> (Some (Wrap ''failed to encrypt content'' err), db, fs)
                | Inr encrypted \<Rightarrow>
                    let item = newItem P e itemType content encrypted;
                        db' = db\<lparr>Items := item # Items db\<rparr>
                    in
                    (case saveInternal P e (rand_reads e 1) db' fs of
                       (Some err, fs') \<Rightarrow> (Some err, db', fs')
                     | (None, fs') \<Rightarrow>
                         (if warnNeeded then Some (LimitWarn remaining) else None, db', fs')))))"

definition TogglePin ::
  "platform \<Rightarrow> env \<Rightarrow> string \<Rightarrow> Database \<Rightarrow> filesystem \<Rightarrow> failure option \<times> Database \<times> filesystem" where
  "TogglePin P e itemId db fs =
     (case index_where (\<lambda>item. ID item = itemId) (Items db) of
        Some i \<Rightarrow>
          let item = Items db ! i;
              db' = db\<lparr>Items := (Items db)[i := item\<lparr>Pinned := \<not> Pinned item\<rparr>]\<rparr>
          in (case saveInternal P e (rand_reads e 0) db' fs of (r, fs') \<Rightarrow> (r, db', fs'))
      | None \<Rightarrow> (Some ItemNotFound, db, fs))"

definition DeleteItem ::
  "platform \<Rightarrow> env \<Rightarrow> string \<Rightarrow> Database \<Rightarrow> filesystem \<Rightarrow> failure option \<times> Database \<times> filesystem" where
  "DeleteItem P e itemId db fs =
     (case index_where (\<lambda>item. ID item = itemId) (Items db) of
        Some i \<Rightarrow>
          let db' = db\<lparr>Items := take i (Items db) @ drop (Suc i) (Items db)\<rparr>
          in (case saveInternal P e (rand_reads e 0) db' fs of (r, fs') \<Rightarrow> (r, db', fs'))
      | None \<Rightarrow> (Some ItemNotFound, db, fs))"

definition ClearAll ::
  "platform \<Rightarrow> env \<Rightarrow> Database \<Rightarrow> filesystem \<Rightarrow> failure option \<times> Database \<times> filesystem" where
  "ClearAll P e db fs =
     (let db' = db\<lparr>Items := []\<rparr>
      in (case saveInternal P e (rand_reads e 0) db' fs of (r, fs') \<Rightarrow> (r, db', fs')))"

subsection \<open>Notions used in the statements\<close>

text \<open>
  \<open>persisted P e db fs\<close>: the database file holds an envelope that decrypts under the
  store's key to the serialised collection of \<open>db\<close>.
\<close>

definition persisted :: "platform \<Rightarrow> env \<Rightarrow> Database \<Rightarrow> filesystem \<Rightarrow> bool" where
  "persisted P e db fs =
     (case GetDatabasePath P e of
        Inl err \<Rightarrow> False
      | Inr dbPath \<Rightarrow>
          (case fs dbPath of
             None \<Rightarrow> False
           | Some envelope \<Rightarrow>
               (case Decrypt P envelope (key db) of
                  Inl err \<Rightarrow> False
                | Inr data \<Rightarrow> json_Marshal P (Items db) = Inr data)))"

text \<open>An advisory is one of the two limit signals \<open>AddItem\<close> returns as an error value.\<close>

fun is_advisory :: "failure option \<Rightarrow> bool" where
  "is_advisory (Some LimitFull) = True"
| "is_advisory (Some (LimitWarn n)) = True"
| "is_advisory r = False"

text \<open>
  \<open>would_unpin db itemId\<close>: \<open>TogglePin\<close> with this identifier finds a pinned item, so
  it turns a pinned item into an unpinned one.
\<close>

definition would_unpin :: "Database \<Rightarrow> string \<Rightarrow> bool" where
  "would_unpin db itemId =
     (case index_where (\<lambda>item. ID item = itemId) (Items db) of
        Some i \<Rightarrow> Pinned (Items db ! i)
      | None \<Rightarrow> False)"

text \<open>
  The states the store and its file system reach from the empty store of \<open>NewDatabase\<close>
  by calls of the five mutating operations, each in any outside world. With
  \<open>unpin = False\<close> the calls of \<open>TogglePin\<close> that would unpin an item are left out.
\<close>

inductive reachable :: "bool \<Rightarrow> platform \<Rightarrow> Database \<times> filesystem \<Rightarrow> bool"
  for unpin :: bool and P :: platform where
  initial: "reachable unpin P (\<lparr>Items = [], key = k, maxItems = DefaultMaxItems\<rparr>, fs)"
| add: "reachable unpin P (db, fs) \<Longrightarrow>
        AddItem P e itemType content db fs = (r, db', fs') \<Longrightarrow>
        reachable unpin P (db', fs')"
| toggle: "reachable unpin P (db, fs) \<Longrightarrow>
        unpin \<or> \<not> would_unpin db itemId \<Longrightarrow>
        TogglePin P e itemId db fs = (r, db', fs') \<Longrightarrow>
        reachable unpin P (db', fs')"
| delete: "reachable unpin P (db, fs) \<Longrightarrow>
        DeleteItem P e itemId db fs = (r, db', fs') \<Longrightarrow>
        reachable unpin P (db', fs')"
| clear: "reachable unpin P (db, fs) \<Longrightarrow>
        ClearAll P e db fs = (r, db', fs') \<Longrightarrow>
        reachable unpin P (db', fs')"
| setmax: "reachable unpin P (db, fs) \<Longrightarrow>
        SetMaxItems P e n db fs = Some (db', fs') \<Longrightarrow>
        reachable unpin P (db', fs')"


text \<open>The data model's invariant: at most one item per digest and kind.\<close>

definition unique_contents :: "ClipboardItem list \<Rightarrow> bool" where
  "unique_contents items = distinct (map (\<lambda>x. (Hash x, Type x)) items)"

text \<open>The envelope \<open>Encrypt\<close> returns when the key is accepted and the nonce is drawn.\<close>

definition envelope_of :: "platform \<Rightarrow> byte list \<Rightarrow> byte list \<Rightarrow> byte list \<Rightarrow> string" where
  "envelope_of P rnd plaintext k =
     base64_EncodeToString
       (gcm_Seal (aes_block P k) (take NonceSize rnd) (take NonceSize rnd) plaintext [])"

section \<open>A sample platform\<close>

text \<open>
  An instance of the platform and of the outside world, for evaluating the model on
  concrete inputs. Its cipher, digest and codec are simple stand-ins for AES, SHA-256
  and JSON; every theorem below is proved for all platforms.
\<close>

definition sample_platform :: platform where
  "sample_platform =
     \<lparr>aes_block = (\<lambda>k b. b XOR bytes_to_block k),
      sha256_Sum256 = (\<lambda>bs. take 32 (bs @ replicate 32 0)),
      json_Marshal = (\<lambda>items. Inr (bytes_of_string (concat (map (\<lambda>x. ID x @ '','') items)))),
      json_Unmarshal = (\<lambda>data v. if data = [] then (Some SyntaxError, v) else (None, [])),
      filepath_Join = (\<lambda>parts. case parts of [] \<Rightarrow> [] | x # xs \<Rightarrow> x @ concat (map (\<lambda>y. CHR ''/'' # y) xs)),
      GOOS = ''windows'',
      GOARCH = ''amd64''\<rparr>"

definition sample_env :: env where
  "sample_env =
     \<lparr>APPDATA = ''C:/Users/u/AppData/Roaming'',
      mkdir_result = None,
      read_result = None,
      write_result = WriteOk,
      machine_id = Inr ''4c4c4544-0042'',
      rand_reads = (\<lambda>n. replicate 12 (of_nat n)),
      clock = (\<lambda>n. 1700000000000000000 + int n)\<rparr>"

definition sample_key :: "byte list" where
  "sample_key = replicate 32 7"

text \<open>Sample items: item \<open>n\<close> holds the one-byte text \<open>[n]\<close> and was stored at time
  \<open>n\<close>. The sample store is full: ten unpinned items, newest first, under a limit of
  ten.\<close>

definition sample_item :: "nat \<Rightarrow> bool \<Rightarrow> ClipboardItem" where
  "sample_item n pin =
     \<lparr>ID = itoa (int n), Type = ''text'',
      Content = envelope_of sample_platform (replicate 12 0) [of_nat n] sample_key,
      Timestamp = int n, Pinned = pin, Size = 1,
      Hash = hex_of_bytes (sha256_Sum256 sample_platform [of_nat n])\<rparr>"

definition sample_store :: Database where
  "sample_store =
     \<lparr>Items = map (\<lambda>n. sample_item n False) [9, 8, 7, 6, 5, 4, 3, 2, 1, 0],
      key = sample_key, maxItems = 10\<rparr>"


text \<open>Fifteen items, newest first, of which items 13, 8 and 2 are pinned.\<close>

definition mixed_store :: Database where
  "mixed_store =
     \<lparr>Items = map (\<lambda>n. sample_item n (n = 13 \<or> n = 8 \<or> n = 2))
                [14, 13, 12, 11, 10, 9, 8, 7, 6, 5, 4, 3, 2, 1, 0],
      key = sample_key, maxItems = DefaultMaxItems\<rparr>"

definition hardware_key :: "byte list" where
  "hardware_key = sha256_Sum256 sample_platform (bytes_of_string ''4c4c4544-0042-windows-amd64'')"

text \<open>The limit is eleven and the only item is pinned.\<close>

definition one_pinned_store :: Database where
  "one_pinned_store = \<lparr>Items = [sample_item 0 True], key = sample_key, maxItems = 11\<rparr>"

text \<open>The store after the limit was set to ten and the contents \<open>[0]\<close>, ...,
  \<open>[n - 1]\<close> were added in turn.\<close>

definition store_after :: "nat \<Rightarrow> Database" where
  "store_after n =
     \<lparr>Items = map (\<lambda>j. sample_item j False) (rev [0..<n]), key = sample_key, maxItems = 10\<rparr>"

text \<open>The outside world of the n-th call of a run: the clock reads \<open>n\<close>.\<close>

definition step_env :: "nat \<Rightarrow> env" where
  "step_env n = sample_env\<lparr>clock := (\<lambda>i. int n)\<rparr>"

text \<open>Eleven unpinned items under a limit of ten.\<close>

definition overfull_store :: Database where
  "overfull_store =
     \<lparr>Items = map (\<lambda>n. sample_item n False) (rev [0..<11]),
      key = sample_key, maxItems = 10\<rparr>"

text \<open>The store after content \<open>[0]\<close> was added and pinned and the contents \<open>[1]\<close>,
  ..., \<open>[n]\<close> were added in turn, under the default limit.\<close>

definition pinned_first_store :: "nat \<Rightarrow> Database" where
  "pinned_first_store n =
     \<lparr>Items = map (\<lambda>j. sample_item j False) (rev [1..<Suc n]) @ [sample_item 0 True],
      key = sample_key, maxItems = DefaultMaxItems\<rparr>"

text \<open>Eleven unpinned items under a limit of eleven; the oldest, item 0, is stored
  first and the others newest first.\<close>

definition reordered_store :: Database where
  "reordered_store =
     \<lparr>Items = map (\<lambda>j. sample_item j False) [0, 11, 10, 9, 8, 7, 6, 5, 4, 3, 2],
      key = sample_key, maxItems = 11\<rparr>"

definition sample_path :: string where
  "sample_path = ''C:/Users/u/AppData/Roaming/Pano/clipboard.db''"


section \<open>The cipher round trip\<close>

subsection \<open>base64\<close>

lemma index_of_nth: "distinct xs \<Longrightarrow> k < length xs \<Longrightarrow> index_of (xs ! k) xs = Some k"
proof (induction xs arbitrary: k)
  case Nil
  then show ?case by simp
next
  case (Cons y ys)
  show ?case
  proof (cases k)
    case 0
    then show ?thesis by simp
  next
    case (Suc j)
    with Cons.prems have "j < length ys" "ys ! j \<noteq> y" "distinct ys" by auto
    with Cons.IH [of j] Suc show ?thesis by simp
  qed
qed

lemma length_encodeStd: "length encodeStd = 64"
  by (simp add: encodeStd_def)

lemma distinct_encodeStd: "distinct encodeStd"
  by (simp add: encodeStd_def)

lemma dec6_enc6: "dec6 (enc6 v) = Some (v mod 64)"
  unfolding dec6_def enc6_def
  by (rule index_of_nth) (simp_all add: distinct_encodeStd length_encodeStd)

lemma enc6_in_alphabet: "enc6 v \<in> set encodeStd"
  unfolding enc6_def by (rule nth_mem) (simp add: length_encodeStd)

lemma enc6_not_special:
  "enc6 v \<noteq> CHR ''=''" "enc6 v \<noteq> CHR 0x0A" "enc6 v \<noteq> CHR 0x0D"
  using enc6_in_alphabet [of v] by (auto simp: encodeStd_def)


lemma quantum_split:
  assumes "v < 16777216"
  shows "quantum (v div 262144 mod 64) (v div 4096 mod 64) (v div 64 mod 64) (v mod 64) = v"
proof -
  define q1 where "q1 = v div 64"
  define q2 where "q2 = q1 div 64"
  define q3 where "q3 = q2 div 64"
  have d1: "v = 64 * q1 + v mod 64" by (simp add: q1_def)
  have d2: "q1 = 64 * q2 + q1 mod 64" by (simp add: q2_def)
  have d3: "q2 = 64 * q3 + q2 mod 64" by (simp add: q3_def)
  have e2: "v div 4096 = q2" by (simp add: q2_def q1_def div_mult2_eq)
  have e3: "v div 262144 = q3" by (simp add: q3_def q2_def q1_def div_mult2_eq)
  have "q3 < 64" using assms unfolding e3 [symmetric] by (simp add: less_mult_imp_div_less)
  then have m3: "q3 mod 64 = q3" by simp
  have "quantum q3 (q2 mod 64) (q1 mod 64) (v mod 64) = v"
    unfolding quantum_def using d1 d2 d3 by linarith
  then show ?thesis by (simp add: e2 e3 m3 q1_def)
qed

lemma byte_256: "(of_nat (a * 256 + b) :: byte) = of_nat b"
proof -
  have "take_bit 8 (a * 256 + b) = take_bit 8 b"
    by (simp add: take_bit_eq_mod)
  then show ?thesis
    unfolding word_of_nat_eq_iff by simp
qed

lemma byte_hi: "b < 256 \<Longrightarrow> c < 256 \<Longrightarrow> (a * 65536 + b * 256 + c) div 65536 = (a::nat)"
  by simp

lemma byte_mid: "c < 256 \<Longrightarrow> (of_nat ((a * 65536 + b * 256 + c) div 256) :: byte) = of_nat b"
proof -
  assume "c < 256"
  then have "(a * 65536 + b * 256 + c) div 256 = a * 256 + b" by simp
  then show ?thesis by (simp only: byte_256)
qed

lemma byte_lo: "(of_nat (a * 65536 + b * 256 + c) :: byte) = of_nat c"
proof -
  have "a * 65536 + b * 256 + c = (a * 256 + b) * 256 + c" by simp
  then show ?thesis by (simp only: byte_256)
qed


lemma unat_byte_less: "unat (a::byte) < 256"
  using unsigned_less [of a, where 'a = nat] by simp

lemma of_nat_unat_byte: "(of_nat (unat (a::byte)) :: byte) = a"
  by simp

lemma quantum_three:
  assumes "a < 256" "b < 256" "c < 256" and v: "v = a * 65536 + b * 256 + c"
  shows "quantum (v div 262144 mod 64) (v div 4096 mod 64) (v div 64 mod 64) (v mod 64) = v"
  by (rule quantum_split) (use assms in linarith)

lemma quantum_two:
  assumes "a < 256" "b < 256" and v: "v = a * 65536 + b * 256"
  shows "quantum (v div 262144 mod 64) (v div 4096 mod 64) (v div 64 mod 64) 0 = v"
proof -
  have "v = 64 * (a * 1024 + b * 4)" unfolding v by simp
  then have "v mod 64 = 0" by (simp only: mod_mult_self1_is_0)
  moreover have "v < 16777216" using assms by linarith
  ultimately show ?thesis using quantum_split [of v] by simp
qed

lemma quantum_one:
  assumes "a < 256" and v: "v = a * 65536"
  shows "quantum (v div 262144 mod 64) (v div 4096 mod 64) 0 0 = v"
proof -
  have "v = 64 * (a * 1024)" unfolding v by simp
  then have m0: "v mod 64 = 0" by (simp only: mod_mult_self1_is_0)
  have "v div 64 = 64 * (a * 16)" unfolding v by simp
  then have m1: "v div 64 mod 64 = 0" by (simp only: mod_mult_self1_is_0)
  have "v < 16777216" using assms by linarith
  then show ?thesis using quantum_split [of v] m0 m1 by simp
qed

lemma decodeQuanta_full:
  "decodeQuanta (enc6 x # enc6 y # enc6 z # enc6 w # rest) =
     map_option
       (\<lambda>bs. of_nat (quantum (x mod 64) (y mod 64) (z mod 64) (w mod 64) div 65536) #
              of_nat (quantum (x mod 64) (y mod 64) (z mod 64) (w mod 64) div 256) #
              of_nat (quantum (x mod 64) (y mod 64) (z mod 64) (w mod 64)) # bs)
       (decodeQuanta rest)"
  by (cases rest) (simp_all add: enc6_not_special dec6_enc6)

lemma decodeQuanta_pad1:
  "decodeQuanta [enc6 x, enc6 y, enc6 z, CHR ''=''] =
     Some [of_nat (quantum (x mod 64) (y mod 64) (z mod 64) 0 div 65536),
           of_nat (quantum (x mod 64) (y mod 64) (z mod 64) 0 div 256)]"
  by (simp add: enc6_not_special dec6_enc6)

lemma decodeQuanta_pad2:
  "decodeQuanta [enc6 x, enc6 y, CHR ''='', CHR ''=''] =
     Some [of_nat (quantum (x mod 64) (y mod 64) 0 0 div 65536)]"
  by (simp add: enc6_not_special dec6_enc6)

lemma decodeQuanta_encode: "decodeQuanta (base64_EncodeToString bs) = Some bs"
proof (induction bs rule: base64_EncodeToString.induct)
  case (1 a b c rest)
  define v where "v = unat a * 65536 + unat b * 256 + unat c"
  have q: "quantum (v div 262144 mod 64) (v div 4096 mod 64) (v div 64 mod 64) (v mod 64) = v"
    by (rule quantum_three [OF _ _ _ v_def]) (rule unat_byte_less)+
  have e: "base64_EncodeToString (a # b # c # rest) =
      enc6 (v div 262144) # enc6 (v div 4096) # enc6 (v div 64) # enc6 v #
      base64_EncodeToString rest"
    by (simp only: base64_EncodeToString.simps Let_def v_def)
  have b1: "(of_nat (v div 65536) :: byte) = a"
    unfolding v_def by (simp only: byte_hi [OF unat_byte_less unat_byte_less] of_nat_unat_byte)
  have b2: "(of_nat (v div 256) :: byte) = b"
    unfolding v_def by (simp only: byte_mid [OF unat_byte_less] of_nat_unat_byte)
  have b3: "(of_nat v :: byte) = c"
    unfolding v_def by (simp only: byte_lo of_nat_unat_byte)
  show ?case
    unfolding e decodeQuanta_full q b1 b2 b3 using 1 by simp
next
  case (2 a b)
  define v where "v = unat a * 65536 + unat b * 256"
  have q: "quantum (v div 262144 mod 64) (v div 4096 mod 64) (v div 64 mod 64) 0 = v"
    by (rule quantum_two [OF _ _ v_def]) (rule unat_byte_less)+
  have e: "base64_EncodeToString [a, b] =
      [enc6 (v div 262144), enc6 (v div 4096), enc6 (v div 64), CHR ''='']"
    by (simp only: base64_EncodeToString.simps Let_def v_def)
  have v0: "v = unat a * 65536 + unat b * 256 + 0" by (simp add: v_def)
  have b1: "(of_nat (v div 65536) :: byte) = a"
    unfolding v0 by (simp only: byte_hi [OF unat_byte_less] of_nat_unat_byte)
  have b2: "(of_nat (v div 256) :: byte) = b"
    unfolding v0 by (simp only: byte_mid of_nat_unat_byte)
  show ?case
    unfolding e decodeQuanta_pad1 q b1 b2 by simp
next
  case (3 a)
  define v where "v = unat a * 65536"
  have q: "quantum (v div 262144 mod 64) (v div 4096 mod 64) 0 0 = v"
    by (rule quantum_one [OF _ v_def]) (rule unat_byte_less)
  have e: "base64_EncodeToString [a] =
      [enc6 (v div 262144), enc6 (v div 4096), CHR ''='', CHR ''='']"
    by (simp only: base64_EncodeToString.simps Let_def v_def)
  have b1: "(of_nat (v div 65536) :: byte) = a"
    unfolding v_def by simp
  show ?case
    unfolding e decodeQuanta_pad2 q b1 by simp
next
  case 4
  show ?case by simp
qed

lemma encode_no_newline:
  "c \<in> set (base64_EncodeToString bs) \<Longrightarrow> c \<noteq> CHR 0x0A \<and> c \<noteq> CHR 0x0D"
  by (induction bs rule: base64_EncodeToString.induct)
     (auto simp: Let_def enc6_not_special)

lemma base64_roundtrip: "base64_DecodeString (base64_EncodeToString bs) = Some bs"
proof -
  have "filter (\<lambda>c. c \<noteq> CHR 0x0A \<and> c \<noteq> CHR 0x0D) (base64_EncodeToString bs)
        = base64_EncodeToString bs"
    by (rule filter_True) (use encode_no_newline in blast)
  then show ?thesis by (simp add: base64_DecodeString_def decodeQuanta_encode)
qed


subsection \<open>Galois/Counter Mode\<close>

lemma length_block_to_bytes: "length (block_to_bytes w) = 16"
  by (simp add: block_to_bytes_def)

lemma length_gctr_stream: "length (gctr_stream E cb n) = 16 * n"
  by (induction n arbitrary: cb) (simp_all add: length_block_to_bytes)

lemma xor_stream_twice:
  "length xs \<le> length ks \<Longrightarrow> map2 (XOR) (map2 (XOR) xs ks) ks = (xs :: byte list)"
proof (induction xs arbitrary: ks)
  case Nil
  then show ?case by simp
next
  case (Cons x xs)
  then obtain k ks' where "ks = k # ks'" by (cases ks) auto
  with Cons show ?case by (simp add: xor.assoc)
qed

lemma length_gctr: "length (gctr E icb xs) = length xs"
  by (simp add: gctr_def length_gctr_stream)

lemma gctr_involution: "gctr E icb (gctr E icb xs) = xs"
proof -
  have "length xs \<le> length (gctr_stream E icb ((length xs + 15) div 16))"
    by (simp add: length_gctr_stream)
  then show ?thesis
    unfolding gctr_def [of E icb "map2 (XOR) xs _"]
    by (simp add: gctr_def xor_stream_twice)
qed

lemma length_gcm_tag: "length (gcm_tag E nonce ct aad) = TagSize"
  by (simp add: gcm_tag_def Let_def length_block_to_bytes TagSize_def)

lemma gcm_Open_Seal:
  "gcm_Open E nonce (gcm_Seal E [] nonce plaintext aad) aad = Inr plaintext"
  by (simp add: gcm_Open_def gcm_Seal_def Let_def length_gcm_tag length_gctr gctr_involution)

lemma gcm_Seal_dst: "gcm_Seal E dst nonce plaintext aad = dst @ gcm_Seal E [] nonce plaintext aad"
  by (simp add: gcm_Seal_def Let_def)

lemma Decrypt_Encrypt_envelope:
  assumes k: "length k = 16 \<or> length k = 24 \<or> length k = 32"
    and rnd: "NonceSize \<le> length rnd"
  shows "\<exists>envelope. Encrypt P rnd p k = Inr envelope \<and> Decrypt P envelope k = Inr p"
proof -
  define nonce where "nonce = take NonceSize rnd"
  define envelope where
    "envelope = base64_EncodeToString (gcm_Seal (aes_block P k) nonce nonce p [])"
  have n: "length nonce = NonceSize" using rnd by (simp add: nonce_def)
  have c: "aes_NewCipher P k = Inr (aes_block P k)" using k by (simp add: aes_NewCipher_def)
  have r: "io_ReadFull rnd NonceSize = Inr nonce"
    using rnd by (simp add: io_ReadFull_def nonce_def)
  have enc: "Encrypt P rnd p k = Inr envelope"
    by (simp add: Encrypt_def c r envelope_def)
  have dec: "base64_DecodeString envelope = Some (nonce @ gcm_Seal (aes_block P k) [] nonce p [])"
    unfolding envelope_def base64_roundtrip by (subst gcm_Seal_dst) simp
  have "Decrypt P envelope k = Inr p"
    by (simp add: Decrypt_def dec c n gcm_Open_Seal)
  with enc show ?thesis by blast
qed


text \<open>
  C1. Cipher round trip: for every byte buffer \<open>p\<close>, the empty one included, every key
  of a length the cipher accepts (16, 24 or 32 bytes; the store's key has 32) and every
  nonce the random source yields, \<open>Encrypt\<close> returns an envelope and \<open>Decrypt\<close> of
  that envelope under the same key returns exactly \<open>p\<close>.
\<close>

theorem Decrypt_Encrypt_roundtrip:
  assumes "length k = 16 \<or> length k = 24 \<or> length k = 32"
    and "NonceSize \<le> length rnd"
  shows "\<exists>envelope. Encrypt P rnd p k = Inr envelope \<and> Decrypt P envelope k = Inr p"
  using assms by (rule Decrypt_Encrypt_envelope)

theorem Decrypt_Encrypt_roundtrip_witness:
  "length sample_key = 32 \<and> NonceSize \<le> length (replicate 12 (1::byte)) \<and>
   (\<exists>envelope. Encrypt sample_platform (replicate 12 1) [] sample_key = Inr envelope \<and>
      Decrypt sample_platform envelope sample_key = Inr []) \<and>
   (\<exists>envelope. Encrypt sample_platform (replicate 12 1) [104, 105] sample_key = Inr envelope \<and>
      Decrypt sample_platform envelope sample_key = Inr [104, 105])"
  using Decrypt_Encrypt_roundtrip [where k = sample_key and rnd = "replicate 12 1"
      and P = sample_platform and p = "[]"]
    Decrypt_Encrypt_roundtrip [where k = sample_key and rnd = "replicate 12 1"
      and P = sample_platform and p = "[104, 105]"]
  by (simp add: sample_key_def NonceSize_def)

section \<open>Capacity introspection\<close>

text \<open>
  C10. \<open>GetRemainingSlots\<close> is never negative: in every store state it returns the
  difference between \<open>maxItems\<close> and the number of stored items, and 0 where that
  difference is negative.
\<close>

theorem GetRemainingSlots_nonneg:
  "0 \<le> GetRemainingSlots db \<and>
   GetRemainingSlots db = max 0 (maxItems db - int (length (Items db)))"
  by (simp add: GetRemainingSlots_def Let_def)


section \<open>Lemmas about the store's helpers\<close>

lemma index_where_Some:
  "index_where p xs = Some i \<Longrightarrow> i < length xs \<and> p (xs ! i) \<and> (\<forall>j<i. \<not> p (xs ! j))"
proof (induction xs arbitrary: i)
  case Nil
  then show ?case by simp
next
  case (Cons x xs)
  show ?case
  proof (cases "p x")
    case True
    with Cons.prems show ?thesis by simp
  next
    case False
    with Cons.prems obtain k where k: "index_where p xs = Some k" "i = Suc k" by auto
    from Cons.IH [OF k(1)] False k(2) show ?thesis
      by (auto simp: less_Suc_eq_0_disj)
  qed
qed

lemma index_where_None: "index_where p xs = None \<longleftrightarrow> (\<forall>x\<in>set xs. \<not> p x)"
  by (induction xs) auto

lemma index_where_ex: "\<exists>x\<in>set xs. p x \<Longrightarrow> \<exists>i. index_where p xs = Some i"
  using index_where_None [of p xs] by (cases "index_where p xs") auto

lemma Encrypt_Inr_Decrypt:
  assumes "Encrypt P rnd p k = Inr envelope"
  shows "Decrypt P envelope k = Inr p"
proof -
  from assms have k: "length k = 16 \<or> length k = 24 \<or> length k = 32"
    by (auto simp: Encrypt_def aes_NewCipher_def split: if_splits)
  from assms k have r: "NonceSize \<le> length rnd"
    by (auto simp: Encrypt_def aes_NewCipher_def io_ReadFull_def split: if_splits sum.splits)
  from Decrypt_Encrypt_envelope [OF k r, of P p] assms show ?thesis by auto
qed

lemma saveInternal_None:
  assumes "saveInternal P e rnd db fs = (None, fs')"
  shows "persisted P e db fs'"
proof -
  from assms obtain dbPath jsonData encrypted where
    p: "GetDatabasePath P e = Inr dbPath" and
    j: "json_Marshal P (Items db) = Inr jsonData" and
    c: "Encrypt P rnd jsonData (key db) = Inr encrypted" and
    w: "os_WriteFile e fs dbPath encrypted = (None, fs')"
    by (auto simp: saveInternal_def split: sum.splits prod.splits option.splits)
  from w have "fs' dbPath = Some encrypted"
    by (auto simp: os_WriteFile_def split: write_outcome.splits)
  with p j Encrypt_Inr_Decrypt [OF c] show ?thesis
    by (simp add: persisted_def)
qed

lemma saveInternal_not_advisory: "\<not> is_advisory (fst (saveInternal P e rnd db fs))"
  by (auto simp: saveInternal_def GetDatabasePath_def Let_def
      split: sum.splits prod.splits option.splits if_splits)


lemma AddItem_duplicate:
  assumes "length content \<le> MaxItemSize"
    and "index_where (\<lambda>x. Hash x = hex_of_bytes (sha256_Sum256 P content) \<and> Type x = itemType)
           (Items db) = Some i"
  shows "AddItem P e itemType content db fs =
    (fst (saveInternal P e (rand_reads e 0)
            (db\<lparr>Items := moveToFront i (clock e 0) (Items db)\<rparr>) fs),
     db\<lparr>Items := moveToFront i (clock e 0) (Items db)\<rparr>,
     snd (saveInternal P e (rand_reads e 0)
            (db\<lparr>Items := moveToFront i (clock e 0) (Items db)\<rparr>) fs))"
  using assms by (simp add: AddItem_def Let_def split: prod.splits)

lemma AddItem_refused:
  assumes "length content \<le> MaxItemSize"
    and "index_where (\<lambda>x. Hash x = hex_of_bytes (sha256_Sum256 P content) \<and> Type x = itemType)
           (Items db) = None"
    and "maxItems db \<le> unpinnedCount (Items db)"
  shows "AddItem P e itemType content db fs = (Some LimitFull, db, fs)"
  using assms by (simp add: AddItem_def Let_def)

lemma AddItem_encrypt_error:
  assumes "length content \<le> MaxItemSize"
    and "index_where (\<lambda>x. Hash x = hex_of_bytes (sha256_Sum256 P content) \<and> Type x = itemType)
           (Items db) = None"
    and "unpinnedCount (Items db) < maxItems db"
    and "Encrypt P (rand_reads e 0) content (key db) = Inl err"
  shows "AddItem P e itemType content db fs = (Some (Wrap ''failed to encrypt content'' err), db, fs)"
  using assms by (simp add: AddItem_def Let_def)

lemma AddItem_inserted:
  assumes "length content \<le> MaxItemSize"
    and "index_where (\<lambda>x. Hash x = hex_of_bytes (sha256_Sum256 P content) \<and> Type x = itemType)
           (Items db) = None"
    and "unpinnedCount (Items db) < maxItems db"
    and "Encrypt P (rand_reads e 0) content (key db) = Inr encrypted"
    and "saveInternal P e (rand_reads e 1)
           (db\<lparr>Items := newItem P e itemType content encrypted # Items db\<rparr>) fs = (r, fs')"
  shows "AddItem P e itemType content db fs =
    (case r of
       Some err \<Rightarrow> Some err
     | None \<Rightarrow>
         if maxItems db - unpinnedCount (Items db) - 1 \<le> 10
         then Some (LimitWarn (maxItems db - unpinnedCount (Items db) - 1)) else None,
     db\<lparr>Items := newItem P e itemType content encrypted # Items db\<rparr>, fs')"
  using assms by (simp add: AddItem_def Let_def split: option.splits)


lemma AddItem_LimitFull_iff:
  assumes size: "length content \<le> MaxItemSize"
    and new: "index_where (\<lambda>x. Hash x = hex_of_bytes (sha256_Sum256 P content) \<and> Type x = itemType)
           (Items db) = None"
  shows "fst (AddItem P e itemType content db fs) = Some LimitFull \<longleftrightarrow>
         maxItems db \<le> unpinnedCount (Items db)"
proof (cases "maxItems db \<le> unpinnedCount (Items db)")
  case True
  with AddItem_refused [OF size new] show ?thesis by simp
next
  case False
  then have lt: "unpinnedCount (Items db) < maxItems db" by simp
  show ?thesis
  proof (cases "Encrypt P (rand_reads e 0) content (key db)")
    case (Inl err)
    from AddItem_encrypt_error [OF size new lt Inl] False show ?thesis by simp
  next
    case (Inr encrypted)
    let ?db' = "db\<lparr>Items := newItem P e itemType content encrypted # Items db\<rparr>"
    obtain r fs' where s: "saveInternal P e (rand_reads e 1) ?db' fs = (r, fs')"
      by (cases "saveInternal P e (rand_reads e 1) ?db' fs")
    have "\<not> is_advisory r"
      using saveInternal_not_advisory [of P e "rand_reads e 1" ?db' fs] s by simp
    then have "r \<noteq> Some LimitFull" by auto
    with AddItem_inserted [OF size new lt Inr s] False show ?thesis
      by (cases r) (auto split: if_splits)
  qed
qed


subsection \<open>Digests of the sample platform\<close>

lemma hex_digit_inj: "hex_digit m = hex_digit n \<longleftrightarrow> m mod 16 = n mod 16"
proof -
  have d: "distinct ''0123456789abcdef''" by simp
  show ?thesis
    unfolding hex_digit_def
    by (subst nth_eq_iff_index_eq [OF d]) simp_all
qed

lemma byte_of_nibbles:
  assumes "unat (a::byte) div 16 mod 16 = unat (b::byte) div 16 mod 16"
    and "unat a mod 16 = unat b mod 16"
  shows "a = b"
proof -
  have "unat a < 256" "unat b < 256" by (rule unat_byte_less)+
  then have "unat a div 16 < 16" "unat b div 16 < 16" by simp_all
  with assms have "unat a div 16 = unat b div 16" by simp
  with assms(2) have "unat a = unat b"
    by (metis div_mult_mod_eq)
  then show ?thesis by (simp add: word_unat_eq_iff)
qed

lemma hex_of_bytes_inj: "hex_of_bytes xs = hex_of_bytes ys \<longleftrightarrow> xs = ys"
proof (induction xs arbitrary: ys)
  case Nil
  then show ?case by (cases ys) (simp_all add: hex_of_bytes_def)
next
  case (Cons x xs)
  show ?case
  proof (cases ys)
    case Nil
    then show ?thesis by (simp add: hex_of_bytes_def)
  next
    case (Cons y ys')
    have "hex_of_bytes (x # xs) = hex_of_bytes (y # ys') \<longleftrightarrow>
          x = y \<and> hex_of_bytes xs = hex_of_bytes ys'"
      using byte_of_nibbles [of x y]
      by (auto simp: hex_of_bytes_def hex_digit_inj)
    with Cons Cons.IH [of ys'] show ?thesis by simp
  qed
qed

lemma sample_hash_eq:
  "hex_of_bytes (sha256_Sum256 sample_platform [a]) = hex_of_bytes (sha256_Sum256 sample_platform [b])
   \<longleftrightarrow> a = b"
  by (simp add: hex_of_bytes_inj sample_platform_def)

lemma Encrypt_envelope_of:
  assumes "length k = 16 \<or> length k = 24 \<or> length k = 32" and "NonceSize \<le> length rnd"
  shows "Encrypt P rnd p k = Inr (envelope_of P rnd p k)"
  using assms by (simp add: Encrypt_def aes_NewCipher_def io_ReadFull_def envelope_of_def)

lemma saveInternal_succeeds:
  assumes "GetDatabasePath P e = Inr dbPath"
    and "json_Marshal P (Items db) = Inr jsonData"
    and "length (key db) = 16 \<or> length (key db) = 24 \<or> length (key db) = 32"
    and "NonceSize \<le> length rnd"
    and "write_result e = WriteOk"
  shows "saveInternal P e rnd db fs =
           (None, fs(dbPath \<mapsto> envelope_of P rnd jsonData (key db)))"
  using assms by (simp add: saveInternal_def Encrypt_envelope_of os_WriteFile_def)

lemma sample_path: "GetDatabasePath sample_platform sample_env = Inr sample_path"
  by (simp add: GetDatabasePath_def sample_platform_def sample_env_def sample_path_def
      DatabaseFile_def)

lemma sample_save:
  assumes "length (key db) = 32"
  shows "\<exists>fs'. saveInternal sample_platform sample_env (rand_reads sample_env n) db fs = (None, fs')"
proof -
  have "json_Marshal sample_platform (Items db) =
        Inr (bytes_of_string (concat (map (\<lambda>x. ID x @ '','') (Items db))))"
    by (simp add: sample_platform_def)
  from saveInternal_succeeds [OF sample_path this, of "rand_reads sample_env n" fs] assms
  show ?thesis by (simp add: sample_env_def NonceSize_def)
qed

lemma sample_store_distinct:
  "distinct (map (\<lambda>x. (Hash x, Type x)) (Items sample_store))"
  by (simp add: sample_store_def sample_item_def sample_hash_eq)

lemma sample_store_full: "IsFull sample_store"
  by (simp add: IsFull_def unpinnedCount_def sample_store_def sample_item_def)

section \<open>AddItem\<close>

lemma distinct_pairs_unique:
  assumes d: "distinct (map f items)" and i: "i < length items"
  shows "filter (\<lambda>x. f x = f (items ! i)) (take i items @ drop (Suc i) items) = []"
proof -
  have "items = take i items @ items ! i # drop (Suc i) items"
    using i by (simp add: id_take_nth_drop)
  then have "distinct (map f (take i items @ items ! i # drop (Suc i) items))"
    using d by simp
  then have "f (items ! i) \<notin> f ` set (take i items @ drop (Suc i) items)"
    by auto
  then show ?thesis
    unfolding filter_empty_conv by (metis imageI)
qed

lemma filter_length_split:
  assumes "i < length xs"
  shows "length (filter q xs) =
           length (filter q (take i xs @ drop (Suc i) xs)) + (if q (xs ! i) then 1 else 0)"
proof -
  have "xs = take i xs @ xs ! i # drop (Suc i) xs"
    using assms by (simp add: id_take_nth_drop)
  then have "length (filter q xs) = length (filter q (take i xs @ xs ! i # drop (Suc i) xs))"
    by simp
  then show ?thesis by simp
qed

text \<open>
  C2. Duplicate promotion. The submitted content is within the size limit and an item
  with its digest and kind is stored. Then \<open>AddItem\<close> puts the first such item at the
  front of the storage order with the current time as its timestamp, all its other fields
  and all other items and their order unchanged; as many items with that digest and
  kind are stored as before, which is exactly one where no two stored items share digest
  and kind (the store's invariant); the call returns no advisory, whatever the number of
  unpinned items; and when the save of the new collection succeeds, the call returns
  success and the collection is in the file.
\<close>

theorem AddItem_duplicate_promotion:
  assumes size: "length content \<le> MaxItemSize"
    and dup: "\<exists>x\<in>set (Items db). Hash x = hex_of_bytes (sha256_Sum256 P content) \<and> Type x = itemType"
  shows "\<exists>i existing db'.
           i < length (Items db) \<and> existing = Items db ! i \<and>
           Hash existing = hex_of_bytes (sha256_Sum256 P content) \<and> Type existing = itemType \<and>
           (\<forall>j<i. \<not> (Hash (Items db ! j) = hex_of_bytes (sha256_Sum256 P content) \<and>
                      Type (Items db ! j) = itemType)) \<and>
           db' = db\<lparr>Items := existing\<lparr>Timestamp := clock e 0\<rparr> #
                                take i (Items db) @ drop (Suc i) (Items db)\<rparr> \<and>
           fst (snd (AddItem P e itemType content db fs)) = db' \<and>
           length (filter (\<lambda>x. Hash x = hex_of_bytes (sha256_Sum256 P content) \<and> Type x = itemType)
                     (Items db')) =
           length (filter (\<lambda>x. Hash x = hex_of_bytes (sha256_Sum256 P content) \<and> Type x = itemType)
                     (Items db)) \<and>
           (distinct (map (\<lambda>x. (Hash x, Type x)) (Items db)) \<longrightarrow>
            length (filter (\<lambda>x. Hash x = hex_of_bytes (sha256_Sum256 P content) \<and> Type x = itemType)
                     (Items db')) = 1) \<and>
           \<not> is_advisory (fst (AddItem P e itemType content db fs)) \<and>
           (\<forall>fs'. saveInternal P e (rand_reads e 0) db' fs = (None, fs') \<longrightarrow>
                  AddItem P e itemType content db fs = (None, db', fs') \<and> persisted P e db' fs')"
proof -
  let ?h = "hex_of_bytes (sha256_Sum256 P content)"
  let ?m = "\<lambda>x. Hash x = ?h \<and> Type x = itemType"
  from index_where_ex [of "Items db" ?m] dup
  obtain i where i: "index_where ?m (Items db) = Some i" by blast
  from index_where_Some [OF i] have il: "i < length (Items db)" and mi: "?m (Items db ! i)"
    and first: "\<forall>j<i. \<not> ?m (Items db ! j)"
    by simp_all
  let ?db1 = "db\<lparr>Items := moveToFront i (clock e 0) (Items db)\<rparr>"
  have add: "AddItem P e itemType content db fs =
      (fst (saveInternal P e (rand_reads e 0) ?db1 fs), ?db1,
       snd (saveInternal P e (rand_reads e 0) ?db1 fs))"
    by (rule AddItem_duplicate [OF size i])
  have eq: "?db1 = db\<lparr>Items := (Items db ! i)\<lparr>Timestamp := clock e 0\<rparr> #
                                take i (Items db) @ drop (Suc i) (Items db)\<rparr>"
    by (simp add: moveToFront_def)
  have same: "length (filter ?m (Items ?db1)) = length (filter ?m (Items db))"
    using filter_length_split [OF il, of ?m] mi by (simp add: moveToFront_def)
  have m_eq: "?m = (\<lambda>x. (Hash x, Type x) = (Hash (Items db ! i), Type (Items db ! i)))"
    using mi by auto
  have one: "length (filter ?m (Items ?db1)) = 1"
    if uniq: "distinct (map (\<lambda>x. (Hash x, Type x)) (Items db))"
  proof -
    have "filter ?m (take i (Items db) @ drop (Suc i) (Items db)) = []"
      unfolding m_eq by (rule distinct_pairs_unique [OF uniq il])
    then show ?thesis using mi by (simp add: moveToFront_def)
  qed
  have adv: "\<not> is_advisory (fst (AddItem P e itemType content db fs))"
    unfolding add using saveInternal_not_advisory [of P e "rand_reads e 0" ?db1 fs] by simp
  have sv: "\<forall>fs'. saveInternal P e (rand_reads e 0) ?db1 fs = (None, fs') \<longrightarrow>
                  AddItem P e itemType content db fs = (None, ?db1, fs') \<and> persisted P e ?db1 fs'"
    using add saveInternal_None by auto
  show ?thesis
    apply (rule exI [of _ i])
    apply (rule exI [of _ "Items db ! i"])
    apply (rule exI [of _ ?db1])
    using il mi first eq same one adv sv add by simp
qed

theorem AddItem_duplicate_promotion_witness:
  "IsFull sample_store \<and> length [3::byte] \<le> MaxItemSize \<and>
   distinct (map (\<lambda>x. (Hash x, Type x)) (Items sample_store)) \<and>
   (\<exists>fs'. AddItem sample_platform sample_env ''text'' [3] sample_store Map.empty =
      (None,
       sample_store\<lparr>Items := (sample_item 3 False)\<lparr>Timestamp := clock sample_env 0\<rparr> #
          map (\<lambda>n. sample_item n False) [9, 8, 7, 6, 5, 4, 2, 1, 0]\<rparr>,
       fs'))"
proof -
  let ?h = "hex_of_bytes (sha256_Sum256 sample_platform [3])"
  have size: "length [3::byte] \<le> MaxItemSize" by (simp add: MaxItemSize_def)
  have dup: "\<exists>x\<in>set (Items sample_store). Hash x = ?h \<and> Type x = ''text''"
    by (simp add: sample_store_def sample_item_def)
  from AddItem_duplicate_promotion [OF size dup, of sample_env Map.empty]
  obtain i existing db' where
    i: "i < length (Items sample_store)" and
    ex: "existing = Items sample_store ! i" and
    h: "Hash existing = ?h" and
    db': "db' = sample_store\<lparr>Items := existing\<lparr>Timestamp := clock sample_env 0\<rparr> #
             take i (Items sample_store) @ drop (Suc i) (Items sample_store)\<rparr>" and
    sv: "\<forall>fs'. saveInternal sample_platform sample_env (rand_reads sample_env 0) db' Map.empty
              = (None, fs') \<longrightarrow>
           AddItem sample_platform sample_env ''text'' [3] sample_store Map.empty = (None, db', fs')"
    by blast
  from i have "i \<in> {0, 1, 2, 3, 4, 5, 6, 7, 8, 9}"
    by (auto simp: sample_store_def)
  with h ex have i6: "i = 6"
    by (auto simp: sample_store_def sample_item_def sample_hash_eq)
  have k: "length (key db') = 32" by (simp add: db' sample_store_def sample_key_def)
  from sample_save [OF k, of 0 Map.empty] sv obtain fs' where
    "AddItem sample_platform sample_env ''text'' [3] sample_store Map.empty = (None, db', fs')"
    by blast
  moreover have "db' = sample_store\<lparr>Items := (sample_item 3 False)\<lparr>Timestamp := clock sample_env 0\<rparr> #
          map (\<lambda>n. sample_item n False) [9, 8, 7, 6, 5, 4, 2, 1, 0]\<rparr>"
    unfolding db' ex i6 by (simp add: sample_store_def)
  ultimately show ?thesis
    using sample_store_full size sample_store_distinct by auto
qed

lemma DeleteItem_found:
  assumes "index_where (\<lambda>item. ID item = itemId) (Items db) = Some i"
    and "saveInternal P e (rand_reads e 0)
           (db\<lparr>Items := take i (Items db) @ drop (Suc i) (Items db)\<rparr>) fs = (r, fs')"
  shows "DeleteItem P e itemId db fs =
           (r, db\<lparr>Items := take i (Items db) @ drop (Suc i) (Items db)\<rparr>, fs')"
  using assms by (simp add: DeleteItem_def Let_def)

lemma sample_Encrypt:
  "Encrypt sample_platform (rand_reads sample_env n) p sample_key =
     Inr (envelope_of sample_platform (rand_reads sample_env n) p sample_key)"
  by (rule Encrypt_envelope_of) (simp_all add: sample_key_def sample_env_def NonceSize_def)

text \<open>
  C3. Capacity refusal. For a submission within the size limit whose digest and kind
  match no stored item, \<open>AddItem\<close> returns the advisory \<open>LimitFull\<close> if and only if
  the number of unpinned items is at least \<open>maxItems\<close>; in that case the store and the
  file system are returned as they were. Below the limit the same submission is inserted:
  when its encryption and the save succeed, the new item is at the front, the collection
  is in the file, and the call returns success or a \<open>LimitWarn\<close> advisory.
\<close>

theorem AddItem_capacity_refusal:
  assumes size: "length content \<le> MaxItemSize"
    and new: "\<forall>x\<in>set (Items db).
                \<not> (Hash x = hex_of_bytes (sha256_Sum256 P content) \<and> Type x = itemType)"
  shows "(fst (AddItem P e itemType content db fs) = Some LimitFull \<longleftrightarrow>
            maxItems db \<le> unpinnedCount (Items db)) \<and>
         (maxItems db \<le> unpinnedCount (Items db) \<longrightarrow>
            AddItem P e itemType content db fs = (Some LimitFull, db, fs)) \<and>
         (unpinnedCount (Items db) < maxItems db \<longrightarrow>
            (\<forall>encrypted fs'.
               Encrypt P (rand_reads e 0) content (key db) = Inr encrypted \<longrightarrow>
               saveInternal P e (rand_reads e 1)
                 (db\<lparr>Items := newItem P e itemType content encrypted # Items db\<rparr>) fs = (None, fs') \<longrightarrow>
               snd (AddItem P e itemType content db fs) =
                 (db\<lparr>Items := newItem P e itemType content encrypted # Items db\<rparr>, fs') \<and>
               (fst (AddItem P e itemType content db fs) = None \<or>
                (\<exists>n. fst (AddItem P e itemType content db fs) = Some (LimitWarn n))) \<and>
               persisted P e (db\<lparr>Items := newItem P e itemType content encrypted # Items db\<rparr>) fs'))"
proof -
  from new have none:
    "index_where (\<lambda>x. Hash x = hex_of_bytes (sha256_Sum256 P content) \<and> Type x = itemType)
       (Items db) = None"
    by (simp add: index_where_None)
  have a: "fst (AddItem P e itemType content db fs) = Some LimitFull \<longleftrightarrow>
            maxItems db \<le> unpinnedCount (Items db)"
    by (rule AddItem_LimitFull_iff [OF size none])
  have b: "maxItems db \<le> unpinnedCount (Items db) \<longrightarrow>
            AddItem P e itemType content db fs = (Some LimitFull, db, fs)"
    using AddItem_refused [OF size none] by blast
  have c: "snd (AddItem P e itemType content db fs) =
             (db\<lparr>Items := newItem P e itemType content encrypted # Items db\<rparr>, fs') \<and>
           (fst (AddItem P e itemType content db fs) = None \<or>
            (\<exists>n. fst (AddItem P e itemType content db fs) = Some (LimitWarn n))) \<and>
           persisted P e (db\<lparr>Items := newItem P e itemType content encrypted # Items db\<rparr>) fs'"
    if lt: "unpinnedCount (Items db) < maxItems db"
      and enc: "Encrypt P (rand_reads e 0) content (key db) = Inr encrypted"
      and sv: "saveInternal P e (rand_reads e 1)
                 (db\<lparr>Items := newItem P e itemType content encrypted # Items db\<rparr>) fs = (None, fs')"
    for encrypted fs'
    using AddItem_inserted [OF size none lt enc sv] saveInternal_None [OF sv] by simp
  from a b c show ?thesis by blast
qed

theorem AddItem_capacity_refusal_witness:
  "length [42::byte] \<le> MaxItemSize \<and> unpinnedCount (Items sample_store) = 10 \<and>
   maxItems sample_store = 10 \<and>
   AddItem sample_platform sample_env ''text'' [42] sample_store Map.empty =
     (Some LimitFull, sample_store, Map.empty) \<and>
   (\<exists>db9 fs9 fs'.
      DeleteItem sample_platform sample_env ''0'' sample_store Map.empty = (None, db9, fs9) \<and>
      unpinnedCount (Items db9) = 9 \<and>
      snd (AddItem sample_platform sample_env ''text'' [42] db9 fs9) =
        (db9\<lparr>Items := newItem sample_platform sample_env ''text'' [42]
                   (envelope_of sample_platform (rand_reads sample_env 0) [42] sample_key) #
                 Items db9\<rparr>, fs') \<and>
      fst (AddItem sample_platform sample_env ''text'' [42] db9 fs9) \<noteq> Some LimitFull)"
proof -
  let ?P = sample_platform and ?e = sample_env
  define db9 where
    "db9 = sample_store\<lparr>Items := map (\<lambda>n. sample_item n False) [9, 8, 7, 6, 5, 4, 3, 2, 1]\<rparr>"
  have size: "length [42::byte] \<le> MaxItemSize" by (simp add: MaxItemSize_def)
  have cnt: "unpinnedCount (Items sample_store) = 10" "maxItems sample_store = 10"
    by (simp_all add: unpinnedCount_def sample_store_def sample_item_def)
  have new10: "\<forall>x\<in>set (Items sample_store).
      \<not> (Hash x = hex_of_bytes (sha256_Sum256 ?P [42]) \<and> Type x = ''text'')"
    by (simp add: sample_store_def sample_item_def sample_hash_eq)
  have refused: "AddItem ?P ?e ''text'' [42] sample_store Map.empty =
      (Some LimitFull, sample_store, Map.empty)"
    using AddItem_capacity_refusal [OF size new10, of ?e Map.empty] cnt by simp
  have idx: "index_where (\<lambda>item. ID item = ''0'') (Items sample_store) = Some 9"
    by (simp add: sample_store_def sample_item_def itoa_def dec_of_nat.simps)
  have del_items: "sample_store\<lparr>Items := take 9 (Items sample_store) @
      drop (Suc 9) (Items sample_store)\<rparr> = db9"
    by (simp add: db9_def sample_store_def)
  have k9: "length (key db9) = 32" by (simp add: db9_def sample_store_def sample_key_def)
  from sample_save [OF k9, of 0 Map.empty] obtain fs9 where
    s9: "saveInternal ?P ?e (rand_reads ?e 0) db9 Map.empty = (None, fs9)" by blast
  have del: "DeleteItem ?P ?e ''0'' sample_store Map.empty = (None, db9, fs9)"
    using DeleteItem_found [OF idx, of ?P ?e Map.empty None fs9] s9
    unfolding del_items by simp
  have cnt9: "unpinnedCount (Items db9) = 9" "maxItems db9 = 10" "key db9 = sample_key"
    by (simp_all add: unpinnedCount_def db9_def sample_store_def sample_item_def)
  have new9: "\<forall>x\<in>set (Items db9).
      \<not> (Hash x = hex_of_bytes (sha256_Sum256 ?P [42]) \<and> Type x = ''text'')"
    by (simp add: db9_def sample_store_def sample_item_def sample_hash_eq)
  let ?c = "envelope_of ?P (rand_reads ?e 0) [42] sample_key"
  let ?db' = "db9\<lparr>Items := newItem ?P ?e ''text'' [42] ?c # Items db9\<rparr>"
  have enc: "Encrypt ?P (rand_reads ?e 0) [42] (key db9) = Inr ?c"
    unfolding cnt9 by (rule sample_Encrypt)
  have "length (key ?db') = 32" using k9 by simp
  from sample_save [OF this, of 1 fs9] obtain fs' where
    s': "saveInternal ?P ?e (rand_reads ?e 1) ?db' fs9 = (None, fs')" by blast
  from AddItem_capacity_refusal [OF size new9, of ?e fs9] cnt9 enc s'
  have "snd (AddItem ?P ?e ''text'' [42] db9 fs9) = (?db', fs')"
    and "fst (AddItem ?P ?e ''text'' [42] db9 fs9) \<noteq> Some LimitFull"
    by auto
  with del cnt9(1) have
    "\<exists>db9 fs9 fs'.
      DeleteItem ?P ?e ''0'' sample_store Map.empty = (None, db9, fs9) \<and>
      unpinnedCount (Items db9) = 9 \<and>
      snd (AddItem ?P ?e ''text'' [42] db9 fs9) =
        (db9\<lparr>Items := newItem ?P ?e ''text'' [42] ?c # Items db9\<rparr>, fs') \<and>
      fst (AddItem ?P ?e ''text'' [42] db9 fs9) \<noteq> Some LimitFull"
    by blast
  with size cnt refused show ?thesis by blast
qed





section \<open>TogglePin\<close>

lemma index_where_map_cong:
  "map f ys = map f xs \<Longrightarrow>
   index_where (\<lambda>x. f x = a) ys = index_where (\<lambda>x. f x = a) xs"
proof (induction xs arbitrary: ys)
  case Nil
  then show ?case by simp
next
  case (Cons x xs)
  then obtain y ys' where "ys = y # ys'" "f y = f x" "map f ys' = map f xs" by (cases ys) auto
  with Cons.IH [of ys'] show ?case by simp
qed

lemma map_ID_toggle:
  "map ID (xs[i := (xs ! i)\<lparr>Pinned := b\<rparr>]) = map ID xs"
  by (induction xs arbitrary: i) (auto split: nat.splits)

lemma index_where_toggle:
  "index_where (\<lambda>x. ID x = a) (xs[i := (xs ! i)\<lparr>Pinned := b\<rparr>]) =
   index_where (\<lambda>x. ID x = a) xs"
  by (rule index_where_map_cong) (rule map_ID_toggle)

lemma TogglePin_found:
  assumes "index_where (\<lambda>item. ID item = itemId) (Items db) = Some i"
  shows "TogglePin P e itemId db fs =
    (fst (saveInternal P e (rand_reads e 0)
       (db\<lparr>Items := (Items db)[i := (Items db ! i)\<lparr>Pinned := \<not> Pinned (Items db ! i)\<rparr>]\<rparr>) fs),
     db\<lparr>Items := (Items db)[i := (Items db ! i)\<lparr>Pinned := \<not> Pinned (Items db ! i)\<rparr>]\<rparr>,
     snd (saveInternal P e (rand_reads e 0)
       (db\<lparr>Items := (Items db)[i := (Items db ! i)\<lparr>Pinned := \<not> Pinned (Items db ! i)\<rparr>]\<rparr>) fs))"
  using assms by (simp add: TogglePin_def Let_def split: prod.splits)

text \<open>
  C9. \<open>TogglePin\<close> frame. When an item with the given identifier is stored,
  \<open>TogglePin\<close> negates the \<open>Pinned\<close> flag of the first such item and changes nothing
  else in memory: the other fields of that item, every other item, the order, the key and
  \<open>maxItems\<close> are as before, whatever the save returns. A second \<open>TogglePin\<close> with the
  same identifier gives the original store back.
\<close>

theorem TogglePin_frame:
  assumes found: "\<exists>x\<in>set (Items db). ID x = itemId"
  shows "\<exists>i<length (Items db).
           ID (Items db ! i) = itemId \<and> (\<forall>j<i. ID (Items db ! j) \<noteq> itemId) \<and>
           (let db' = fst (snd (TogglePin P e itemId db fs)) in
              db' = db\<lparr>Items := (Items db)[i := (Items db ! i)\<lparr>Pinned := \<not> Pinned (Items db ! i)\<rparr>]\<rparr> \<and>
              maxItems db' = maxItems db \<and> key db' = key db \<and>
              length (Items db') = length (Items db) \<and>
              (\<forall>j<length (Items db). j \<noteq> i \<longrightarrow> Items db' ! j = Items db ! j) \<and>
              Pinned (Items db' ! i) = (\<not> Pinned (Items db ! i)) \<and>
              ID (Items db' ! i) = ID (Items db ! i) \<and>
              Type (Items db' ! i) = Type (Items db ! i) \<and>
              Content (Items db' ! i) = Content (Items db ! i) \<and>
              Timestamp (Items db' ! i) = Timestamp (Items db ! i) \<and>
              Size (Items db' ! i) = Size (Items db ! i) \<and>
              Hash (Items db' ! i) = Hash (Items db ! i) \<and>
              (\<forall>e2 fs2. fst (snd (TogglePin P e2 itemId db' fs2)) = db))"
proof -
  let ?m = "\<lambda>item. ID item = itemId"
  from index_where_ex [of "Items db" ?m] found
  obtain i where i: "index_where ?m (Items db) = Some i" by blast
  from index_where_Some [OF i]
  have il: "i < length (Items db)" and mi: "ID (Items db ! i) = itemId"
    and first: "\<forall>j<i. ID (Items db ! j) \<noteq> itemId" by simp_all
  let ?items1 = "(Items db)[i := (Items db ! i)\<lparr>Pinned := \<not> Pinned (Items db ! i)\<rparr>]"
  let ?db1 = "db\<lparr>Items := ?items1\<rparr>"
  have t1: "fst (snd (TogglePin P e itemId db fs)) = ?db1"
    by (simp add: TogglePin_found [OF i])
  have i': "index_where ?m (Items ?db1) = Some i"
    using i by (simp add: index_where_toggle)
  have undo: "(Items ?db1)[i := (Items ?db1 ! i)\<lparr>Pinned := \<not> Pinned (Items ?db1 ! i)\<rparr>] = Items db"
    using il by simp
  have t2: "fst (snd (TogglePin P e2 itemId ?db1 fs2)) = db" for e2 fs2
    using TogglePin_found [OF i', of P e2 fs2] undo by simp
  show ?thesis
    apply (rule exI [of _ i])
    unfolding Let_def t1
    using il mi first t2 by simp
qed

lemma sample_IDs:
  "map ID (Items sample_store) = [''9'', ''8'', ''7'', ''6'', ''5'', ''4'', ''3'', ''2'', ''1'', ''0'']"
  by (simp add: sample_store_def sample_item_def itoa_def dec_of_nat.simps)

theorem TogglePin_frame_witness:
  "fst (snd (TogglePin sample_platform sample_env ''3'' sample_store Map.empty)) =
     sample_store\<lparr>Items := map (\<lambda>n. sample_item n (n = 3)) [9, 8, 7, 6, 5, 4, 3, 2, 1, 0]\<rparr> \<and>
   fst (snd (TogglePin sample_platform sample_env ''3''
     (fst (snd (TogglePin sample_platform sample_env ''3'' sample_store Map.empty))) Map.empty)) =
     sample_store"
proof -
  have found: "\<exists>x\<in>set (Items sample_store). ID x = ''3''"
    by (simp add: sample_store_def sample_item_def itoa_def dec_of_nat.simps)
  from TogglePin_frame [OF found, of sample_platform sample_env Map.empty]
  obtain i where il: "i < length (Items sample_store)"
    and mi: "ID (Items sample_store ! i) = ''3''"
    and t1: "fst (snd (TogglePin sample_platform sample_env ''3'' sample_store Map.empty)) =
      sample_store\<lparr>Items := (Items sample_store)
        [i := (Items sample_store ! i)\<lparr>Pinned := \<not> Pinned (Items sample_store ! i)\<rparr>]\<rparr>"
    and t2: "\<forall>e2 fs2. fst (snd (TogglePin sample_platform e2 ''3''
        (fst (snd (TogglePin sample_platform sample_env ''3'' sample_store Map.empty))) fs2)) =
        sample_store"
    unfolding Let_def by blast
  from il have "i \<in> {0, 1, 2, 3, 4, 5, 6, 7, 8, 9}" by (auto simp: sample_store_def)
  with mi have "i = 6"
    by (auto simp: sample_store_def sample_item_def itoa_def dec_of_nat.simps)
  with t1 have "fst (snd (TogglePin sample_platform sample_env ''3'' sample_store Map.empty)) =
     sample_store\<lparr>Items := map (\<lambda>n. sample_item n (n = 3)) [9, 8, 7, 6, 5, 4, 3, 2, 1, 0]\<rparr>"
    by (simp add: sample_store_def sample_item_def)
  with t2 show ?thesis by simp
qed


section \<open>SetMaxItems and enforceLimit\<close>

lemma enforceLimit_eq:
  assumes "0 \<le> maxItems db"
  shows "enforceLimit db =
    Some (if int (length (Items db)) \<le> maxItems db then db
          else db\<lparr>Items := take (nat (maxItems db)) (filter Pinned (Items db)) @
                  take (nat (maxItems db) - length (filter Pinned (Items db)))
                    (filter (\<lambda>item. \<not> Pinned item) (Items db))\<rparr>)"
proof (cases "int (length (Items db)) \<le> maxItems db")
  case True
  then show ?thesis by (simp add: enforceLimit_def)
next
  case False
  define p where "p = filter Pinned (Items db)"
  define u where "u = filter (\<lambda>item. \<not> Pinned item) (Items db)"
  define m where "m = maxItems db"
  have m0: "0 \<le> m" using assms by (simp add: m_def)
  have e: "enforceLimit db =
    (case (if int (length p) > m then slice_to p m else Some p) of
       None \<Rightarrow> None
     | Some p' \<Rightarrow>
         (case (if int (length u) > m - int (length p')
                then slice_to u (m - int (length p')) else Some u) of
            None \<Rightarrow> None
          | Some u' \<Rightarrow> Some (db\<lparr>Items := p' @ u'\<rparr>)))"
    unfolding enforceLimit_def Let_def p_def u_def m_def using False by (simp only: if_False)
  have "enforceLimit db = Some (db\<lparr>Items := take (nat m) p @ take (nat m - length p) u\<rparr>)"
  proof (cases "int (length p) > m")
    case True
    then have s: "slice_to p m = Some (take (nat m) p)" using m0 by (simp add: slice_to_def)
    have l: "m - int (length (take (nat m) p)) = 0" using True m0 by simp
    have z: "nat m - length p = 0" using True by simp
    show ?thesis unfolding e using True m0 by (simp add: s l z slice_to_def)
  next
    case False
    then have t: "take (nat m) p = p" by simp
    have n: "nat (m - int (length p)) = nat m - length p" using m0 by simp
    have a0: "0 \<le> m - int (length p)" using False by simp
    show ?thesis
    proof (cases "int (length u) > m - int (length p)")
      case True
      then have "slice_to u (m - int (length p)) = Some (take (nat m - length p) u)"
        using a0 by (simp add: slice_to_def n)
      with True \<open>\<not> int (length p) > m\<close> show ?thesis unfolding e by (simp add: t)
    next
      case False
      then have "take (nat m - length p) u = u" unfolding n [symmetric] by simp
      with False \<open>\<not> int (length p) > m\<close> show ?thesis unfolding e by (simp add: t)
    qed
  qed
  with False show ?thesis by (simp add: p_def u_def m_def)
qed

lemma SetMaxItems_eq:
  "SetMaxItems P e n db fs =
     Some (the (enforceLimit (db\<lparr>maxItems := max 10 (min 500 n)\<rparr>)),
           snd (saveInternal P e (rand_reads e 0)
                  (the (enforceLimit (db\<lparr>maxItems := max 10 (min 500 n)\<rparr>))) fs))"
proof -
  have c: "(if (if n < 10 then 10 else n) > 500 then 500 else (if n < 10 then 10 else n)) =
           max 10 (min 500 n)" by simp
  have "0 \<le> maxItems (db\<lparr>maxItems := max 10 (min 500 n)\<rparr>)" by simp
  from enforceLimit_eq [OF this] show ?thesis
    unfolding SetMaxItems_def Let_def c by simp
qed

text \<open>
  X3. Eviction in storage order. \<open>SetMaxItems n\<close> sets the limit to \<open>n\<close> clamped to
  the range from 10 to 500. When the store holds more items than that limit, it does not
  panic and the collection becomes: the pinned items in their order, cut to the first
  limit-many, followed by the first unpinned items in storage order, as many as the limit
  leaves room for; every other unpinned item is gone. Where the unpinned items are stored
  newest first, every unpinned item kept is at least as new as every one dropped.
\<close>

theorem SetMaxItems_eviction:
  assumes cap: "cap = max 10 (min 500 n)"
    and over: "cap < int (length (Items db))"
  shows "10 \<le> cap \<and> cap \<le> 500 \<and>
    (\<exists>fs'. SetMaxItems P e n db fs =
       Some (db\<lparr>maxItems := cap,
                Items := take (nat cap) (filter Pinned (Items db)) @
                         take (nat cap - length (filter Pinned (Items db)))
                           (filter (\<lambda>item. \<not> Pinned item) (Items db))\<rparr>, fs')) \<and>
    (sorted_wrt (\<lambda>a b. Timestamp b \<le> Timestamp a) (filter (\<lambda>item. \<not> Pinned item) (Items db)) \<longrightarrow>
       (\<forall>kept\<in>set (take (nat cap - length (filter Pinned (Items db)))
                       (filter (\<lambda>item. \<not> Pinned item) (Items db))).
        \<forall>dropped\<in>set (drop (nat cap - length (filter Pinned (Items db)))
                       (filter (\<lambda>item. \<not> Pinned item) (Items db))).
          Timestamp dropped \<le> Timestamp kept))"
proof -
  have r: "10 \<le> cap" "cap \<le> 500" using cap by simp_all
  have "0 \<le> maxItems (db\<lparr>maxItems := cap\<rparr>)" using r by simp
  from enforceLimit_eq [OF this] over
  have e: "enforceLimit (db\<lparr>maxItems := cap\<rparr>) =
      Some (db\<lparr>maxItems := cap,
               Items := take (nat cap) (filter Pinned (Items db)) @
                        take (nat cap - length (filter Pinned (Items db)))
                          (filter (\<lambda>item. \<not> Pinned item) (Items db))\<rparr>)"
    by simp
  have s: "\<exists>fs'. SetMaxItems P e n db fs =
       Some (db\<lparr>maxItems := cap,
                Items := take (nat cap) (filter Pinned (Items db)) @
                         take (nat cap - length (filter Pinned (Items db)))
                           (filter (\<lambda>item. \<not> Pinned item) (Items db))\<rparr>, fs')"
    unfolding SetMaxItems_eq cap [symmetric] e by simp
  have t: "\<forall>kept\<in>set (take k us). \<forall>dropped\<in>set (drop k us). Timestamp dropped \<le> Timestamp kept"
    if "sorted_wrt (\<lambda>a b. Timestamp b \<le> Timestamp a) us" for k and us :: "ClipboardItem list"
  proof -
    from that have "sorted_wrt (\<lambda>a b. Timestamp b \<le> Timestamp a) (take k us @ drop k us)"
      by simp
    then show ?thesis unfolding sorted_wrt_append by blast
  qed
  from r s t show ?thesis by blast
qed

theorem SetMaxItems_eviction_witness:
  "length (filter Pinned (Items mixed_store)) = 3 \<and>
   length (filter (\<lambda>item. \<not> Pinned item) (Items mixed_store)) = 12 \<and>
   (\<exists>fs'. SetMaxItems sample_platform sample_env 10 mixed_store Map.empty =
      Some (mixed_store\<lparr>maxItems := 10,
              Items := map (\<lambda>n. sample_item n True) [13, 8, 2] @
                       map (\<lambda>n. sample_item n False) [14, 12, 11, 10, 9, 7, 6]\<rparr>, fs'))"
proof -
  have c: "(10::int) = max 10 (min 500 10)" by simp
  have o: "10 < int (length (Items mixed_store))" by (simp add: mixed_store_def)
  from SetMaxItems_eviction [OF c o, of sample_platform sample_env Map.empty]
  obtain fs' where "SetMaxItems sample_platform sample_env 10 mixed_store Map.empty =
       Some (mixed_store\<lparr>maxItems := 10,
                Items := take (nat 10) (filter Pinned (Items mixed_store)) @
                         take (nat 10 - length (filter Pinned (Items mixed_store)))
                           (filter (\<lambda>item. \<not> Pinned item) (Items mixed_store))\<rparr>, fs')"
    by blast
  then show ?thesis
    by (simp add: mixed_store_def sample_item_def)
qed


section \<open>NewDatabase and Load\<close>

text \<open>
  C8. Load failure is fatal, absence is not. With the hardware key derived and the path
  resolved, \<open>NewDatabase\<close> returns a store with an empty collection when no file is at
  the path; when a file is there and its content fails to decrypt, or decrypts to data
  that fails to parse, \<open>NewDatabase\<close> returns that error, wrapped, and no store.
\<close>

theorem NewDatabase_load_failure:
  assumes mid: "machine_id e = Inr machineID"
    and k: "k = sha256_Sum256 P (bytes_of_string (machineID @ ''-'' @ GOOS P @ ''-'' @ GOARCH P))"
    and path: "GetDatabasePath P e = Inr dbPath"
  shows "(fs dbPath = None \<longrightarrow>
           NewDatabase P e fs = Inr \<lparr>Items = [], key = k, maxItems = DefaultMaxItems\<rparr>) \<and>
         (\<forall>blob err. fs dbPath = Some blob \<longrightarrow> read_result e = None \<longrightarrow>
            Decrypt P blob k = Inl err \<longrightarrow>
            NewDatabase P e fs = Inl (Wrap ''failed to decrypt database'' err)) \<and>
         (\<forall>blob data err items. fs dbPath = Some blob \<longrightarrow> read_result e = None \<longrightarrow>
            Decrypt P blob k = Inr data \<longrightarrow> json_Unmarshal P data [] = (Some err, items) \<longrightarrow>
            NewDatabase P e fs = Inl (Wrap ''failed to parse database'' err))"
proof -
  have hk: "GetHardwareKey P e = Inr k"
    using mid k by (simp add: GetHardwareKey_def)
  let ?db = "\<lparr>Items = [], key = k, maxItems = DefaultMaxItems\<rparr>"
  have a: "NewDatabase P e fs = Inr ?db" if "fs dbPath = None"
  proof -
    have "Load P e ?db fs = (Some ErrNotExist, ?db)"
      using that path by (simp add: Load_def os_ReadFile_def)
    then show ?thesis by (simp add: NewDatabase_def hk os_IsNotExist_def)
  qed
  have b: "NewDatabase P e fs = Inl (Wrap ''failed to decrypt database'' err)"
    if "fs dbPath = Some blob" "read_result e = None" "Decrypt P blob k = Inl err" for blob err
  proof -
    have "Load P e ?db fs = (Some (Wrap ''failed to decrypt database'' err), ?db)"
      using that path by (simp add: Load_def os_ReadFile_def)
    then show ?thesis by (simp add: NewDatabase_def hk os_IsNotExist_def)
  qed
  have c: "NewDatabase P e fs = Inl (Wrap ''failed to parse database'' err)"
    if "fs dbPath = Some blob" "read_result e = None" "Decrypt P blob k = Inr data"
      "json_Unmarshal P data [] = (Some err, items)" for blob data err items
  proof -
    have "Load P e ?db fs = (Some (Wrap ''failed to parse database'' err), ?db\<lparr>Items := items\<rparr>)"
      using that path by (simp add: Load_def os_ReadFile_def)
    then show ?thesis by (simp add: NewDatabase_def hk os_IsNotExist_def)
  qed
  from a b c show ?thesis by blast
qed

lemma length_hardware_key: "length hardware_key = 32"
  by (simp add: hardware_key_def sample_platform_def bytes_of_string_def)

theorem NewDatabase_load_failure_witness:
  "NewDatabase sample_platform sample_env Map.empty =
     Inr \<lparr>Items = [], key = hardware_key, maxItems = DefaultMaxItems\<rparr> \<and>
   NewDatabase sample_platform sample_env [sample_path \<mapsto> ''!!!''] =
     Inl (Wrap ''failed to decrypt database'' (Wrap ''failed to decode base64'' CorruptInput)) \<and>
   NewDatabase sample_platform sample_env
       [sample_path \<mapsto> envelope_of sample_platform (replicate 12 0) [] hardware_key] =
     Inl (Wrap ''failed to parse database'' SyntaxError)"
proof -
  let ?P = sample_platform and ?e = sample_env
  have mid: "machine_id ?e = Inr ''4c4c4544-0042''" by (simp add: sample_env_def)
  have k: "hardware_key =
      sha256_Sum256 ?P (bytes_of_string (''4c4c4544-0042'' @ ''-'' @ GOOS ?P @ ''-'' @ GOARCH ?P))"
    by (simp add: hardware_key_def sample_platform_def)
  note inst = NewDatabase_load_failure [OF mid k sample_path]
  have rd: "read_result ?e = None" by (simp add: sample_env_def)
  have a: "NewDatabase ?P ?e Map.empty =
      Inr \<lparr>Items = [], key = hardware_key, maxItems = DefaultMaxItems\<rparr>"
    using inst [of Map.empty] by simp
  have d1: "Decrypt ?P ''!!!'' hardware_key = Inl (Wrap ''failed to decode base64'' CorruptInput)"
    by (simp add: Decrypt_def base64_DecodeString_def)
  have b: "NewDatabase ?P ?e [sample_path \<mapsto> ''!!!''] =
      Inl (Wrap ''failed to decrypt database'' (Wrap ''failed to decode base64'' CorruptInput))"
    using inst [of "[sample_path \<mapsto> ''!!!'']"] rd d1 by simp
  let ?blob = "envelope_of ?P (replicate 12 0) [] hardware_key"
  have "Encrypt ?P (replicate 12 0) [] hardware_key = Inr ?blob"
    by (rule Encrypt_envelope_of) (simp_all add: length_hardware_key NonceSize_def)
  then have d2: "Decrypt ?P ?blob hardware_key = Inr []" by (rule Encrypt_Inr_Decrypt)
  have u: "json_Unmarshal ?P [] [] = (Some SyntaxError, [])" by (simp add: sample_platform_def)
  have c: "NewDatabase ?P ?e [sample_path \<mapsto> ?blob] = Inl (Wrap ''failed to parse database'' SyntaxError)"
    using inst [of "[sample_path \<mapsto> ?blob]"] rd d2 u by simp
  from a b c show ?thesis by simp
qed


section \<open>The capacity invariant\<close>


lemma unpinnedCount_append:
  "unpinnedCount (xs @ ys) = unpinnedCount xs + unpinnedCount ys"
  by (simp add: unpinnedCount_def)

lemma unpinnedCount_Cons:
  "unpinnedCount (x # xs) = (if Pinned x then 0 else 1) + unpinnedCount xs"
  by (simp add: unpinnedCount_def)

lemma unpinnedCount_split:
  assumes "i < length xs"
  shows "unpinnedCount xs =
           unpinnedCount (take i xs @ drop (Suc i) xs) + (if Pinned (xs ! i) then 0 else 1)"
proof -
  have "xs = take i xs @ xs ! i # drop (Suc i) xs"
    using assms by (simp add: id_take_nth_drop)
  then have "unpinnedCount xs = unpinnedCount (take i xs @ xs ! i # drop (Suc i) xs)"
    by simp
  then show ?thesis
    by (simp add: unpinnedCount_append unpinnedCount_Cons)
qed


lemma unpinnedCount_update:
  assumes "i < length xs"
  shows "unpinnedCount (xs[i := (xs ! i)\<lparr>Pinned := b\<rparr>]) =
           unpinnedCount (take i xs @ drop (Suc i) xs) + (if b then 0 else 1)"
proof -
  let ?ys = "xs[i := (xs ! i)\<lparr>Pinned := b\<rparr>]"
  have l: "i < length ?ys" using assms by simp
  have "take i ?ys @ drop (Suc i) ?ys = take i xs @ drop (Suc i) xs" by simp
  with unpinnedCount_split [OF l] assms show ?thesis by simp
qed


lemma TogglePin_count:
  assumes "index_where (\<lambda>item. ID item = itemId) (Items db) = Some i"
  shows "unpinnedCount (Items (fst (snd (TogglePin P e itemId db fs)))) =
         unpinnedCount (Items db) + (if Pinned (Items db ! i) then 1 else - 1)"
proof -
  from index_where_Some [OF assms] have il: "i < length (Items db)" by simp
  from unpinnedCount_update [OF il, of "\<not> Pinned (Items db ! i)"] unpinnedCount_split [OF il]
  show ?thesis by (simp add: TogglePin_found [OF assms])
qed








lemma byte_of_nat_inj:
  assumes "j < 256" "n < 256"
  shows "(of_nat j :: byte) = of_nat n \<longleftrightarrow> j = n"
  using assms unfolding word_of_nat_eq_iff by (simp add: take_bit_eq_mod)

lemma step_env_Encrypt:
  "Encrypt sample_platform (rand_reads (step_env n) i) p sample_key =
     Inr (envelope_of sample_platform (rand_reads sample_env i) p sample_key)"
  using sample_Encrypt [of i p] by (simp add: step_env_def)

lemma step_newItem:
  "newItem sample_platform (step_env n) ''text'' [of_nat n]
     (envelope_of sample_platform (rand_reads sample_env 0) [of_nat n] sample_key) =
   sample_item n False"
  by (simp add: newItem_def sample_item_def step_env_def sample_env_def)

lemma AddItem_step:
  assumes "n < 256"
    and new: "\<forall>x\<in>set (Items db). \<exists>j pin. j < 256 \<and> j \<noteq> n \<and> x = sample_item j pin"
    and room: "unpinnedCount (Items db) < maxItems db"
    and k: "key db = sample_key"
  shows "\<exists>r fs'. AddItem sample_platform (step_env n) ''text'' [of_nat n] db fs =
           (r, db\<lparr>Items := sample_item n False # Items db\<rparr>, fs')"
proof -
  let ?P = sample_platform and ?e = "step_env n"
  have size: "length [of_nat n :: byte] \<le> MaxItemSize" by (simp add: MaxItemSize_def)
  have "\<not> (Hash x = hex_of_bytes (sha256_Sum256 ?P [of_nat n]) \<and> Type x = ''text'')"
    if "x \<in> set (Items db)" for x
  proof -
    from new that obtain j pin where j: "j < 256" "j \<noteq> n" "x = sample_item j pin" by blast
    then show ?thesis
      using byte_of_nat_inj [OF j(1) assms(1)] by (simp add: sample_item_def sample_hash_eq)
  qed
  then have none: "index_where
      (\<lambda>x. Hash x = hex_of_bytes (sha256_Sum256 ?P [of_nat n]) \<and> Type x = ''text'') (Items db) = None"
    by (simp add: index_where_None)
  let ?c = "envelope_of ?P (rand_reads sample_env 0) [of_nat n] sample_key"
  have enc: "Encrypt ?P (rand_reads ?e 0) [of_nat n] (key db) = Inr ?c"
    unfolding k by (rule step_env_Encrypt)
  obtain r1 fs1 where sv: "saveInternal ?P ?e (rand_reads ?e 1)
      (db\<lparr>Items := newItem ?P ?e ''text'' [of_nat n] ?c # Items db\<rparr>) fs = (r1, fs1)"
    by (cases "saveInternal ?P ?e (rand_reads ?e 1)
      (db\<lparr>Items := newItem ?P ?e ''text'' [of_nat n] ?c # Items db\<rparr>) fs")
  from AddItem_inserted [OF size none room enc sv] show ?thesis
    unfolding step_newItem by blast
qed

lemma reach_store_after:
  "n \<le> 10 \<Longrightarrow> \<exists>fs. reachable u sample_platform (store_after n, fs)"
proof (induction n)
  case 0
  let ?init = "\<lparr>Items = [], key = sample_key, maxItems = DefaultMaxItems\<rparr>"
  have i: "reachable u sample_platform (?init, Map.empty)" by (rule reachable.initial)
  have "\<exists>fs'. SetMaxItems sample_platform sample_env 10 ?init Map.empty =
      Some (store_after 0, fs')"
    using enforceLimit_eq [of "?init\<lparr>maxItems := 10\<rparr>"]
    by (simp add: SetMaxItems_eq store_after_def)
  with reachable.setmax [OF i] show ?case by blast
next
  case (Suc n)
  then obtain fs where r: "reachable u sample_platform (store_after n, fs)" by auto
  have new: "\<forall>x\<in>set (Items (store_after n)). \<exists>j pin. j < 256 \<and> j \<noteq> n \<and> x = sample_item j pin"
  proof
    fix x assume "x \<in> set (Items (store_after n))"
    then obtain j where "j < n" "x = sample_item j False" by (auto simp: store_after_def)
    with Suc.prems have "j < 256 \<and> j \<noteq> n \<and> x = sample_item j False" by simp
    then show "\<exists>j pin. j < 256 \<and> j \<noteq> n \<and> x = sample_item j pin" by blast
  qed
  have room: "unpinnedCount (Items (store_after n)) < maxItems (store_after n)"
    using Suc.prems by (simp add: store_after_def unpinnedCount_def sample_item_def o_def)
  from AddItem_step [OF _ new room, of fs] Suc.prems
  obtain r1 fs' where "AddItem sample_platform (step_env n) ''text'' [of_nat n] (store_after n) fs =
      (r1, (store_after n)\<lparr>Items := sample_item n False # Items (store_after n)\<rparr>, fs')"
    by (auto simp: store_after_def)
  moreover have "(store_after n)\<lparr>Items := sample_item n False # Items (store_after n)\<rparr> =
      store_after (Suc n)"
    by (simp add: store_after_def)
  ultimately show ?case using reachable.add [OF r] by metis
qed

lemma upt_11: "rev [0..<11] = [10, 9, 8, 7, 6, 5, 4, 3, 2, 1, 0::nat]"
  by (simp add: upt_rec)

lemma upt_10: "rev [0..<10] = [9, 8, 7, 6, 5, 4, 3, 2, 1, 0::nat]"
  by (simp add: upt_rec)

lemma sample_store_after: "store_after 10 = sample_store"
  by (simp add: store_after_def sample_store_def upt_10)

lemma reach_sample_store: "\<exists>fs. reachable u sample_platform (sample_store, fs)"
  using reach_store_after [of 10 u] by (simp add: sample_store_after)


lemma reach_overfull: "\<exists>fs. reachable True sample_platform (overfull_store, fs)"
proof -
  let ?P = sample_platform
  obtain fs0 where r0: "reachable True ?P (sample_store, fs0)"
    using reach_sample_store [of True] by blast
  \<comment> \<open>pin item 9\<close>
  define A where "A = sample_store\<lparr>Items := sample_item 9 True #
      map (\<lambda>n. sample_item n False) [8, 7, 6, 5, 4, 3, 2, 1, 0]\<rparr>"
  have i0: "index_where (\<lambda>item. ID item = ''9'') (Items sample_store) = Some 0"
    by (simp add: sample_store_def sample_item_def itoa_def dec_of_nat.simps)
  obtain r1 fs1 where t1: "TogglePin ?P sample_env ''9'' sample_store fs0 = (r1, A, fs1)"
    using TogglePin_found [OF i0, of ?P sample_env fs0]
    by (simp add: A_def sample_store_def sample_item_def)
  from reachable.toggle [OF r0 _ t1] have rA: "reachable True ?P (A, fs1)" by simp
  \<comment> \<open>add an eleventh content\<close>
  have newA: "\<forall>x\<in>set (Items A). \<exists>j pin. j < 256 \<and> j \<noteq> 10 \<and> x = sample_item j pin"
    unfolding A_def by (simp, intro conjI exI [of _ True] exI [of _ False]; force)
  have roomA: "unpinnedCount (Items A) < maxItems A"
    by (simp add: A_def unpinnedCount_def sample_store_def sample_item_def)
  have kA: "key A = sample_key" by (simp add: A_def sample_store_def)
  from AddItem_step [OF _ newA roomA kA, of fs1]
  obtain r2 fs2 where a2: "AddItem ?P (step_env 10) ''text'' [of_nat 10] A fs1 =
      (r2, A\<lparr>Items := sample_item 10 False # Items A\<rparr>, fs2)"
    by auto
  define B where "B = A\<lparr>Items := sample_item 10 False # Items A\<rparr>"
  from reachable.add [OF rA a2] have rB: "reachable True ?P (B, fs2)" by (simp add: B_def)
  \<comment> \<open>unpin item 9\<close>
  have i1: "index_where (\<lambda>item. ID item = ''9'') (Items B) = Some 1"
    by (simp add: B_def A_def sample_item_def itoa_def dec_of_nat.simps)
  obtain r3 fs3 where t3: "TogglePin ?P sample_env ''9'' B fs2 = (r3, overfull_store, fs3)"
    using TogglePin_found [OF i1, of ?P sample_env fs2]
    by (simp add: B_def A_def sample_store_def overfull_store_def sample_item_def upt_11)
  from reachable.toggle [OF rB _ t3] show ?thesis by blast
qed





section \<open>Capacity introspection with pinned items\<close>

lemma reach_one_pinned: "\<exists>fs. reachable True sample_platform (one_pinned_store, fs)"
proof -
  let ?P = sample_platform
  let ?init = "\<lparr>Items = [], key = sample_key, maxItems = DefaultMaxItems\<rparr>"
  define E where "E = \<lparr>Items = [], key = sample_key, maxItems = 11\<rparr>"
  have i: "reachable True ?P (?init, Map.empty)" by (rule reachable.initial)
  have "\<exists>fs'. SetMaxItems ?P sample_env 11 ?init Map.empty = Some (E, fs')"
    using enforceLimit_eq [of "?init\<lparr>maxItems := 11\<rparr>"]
    by (simp add: SetMaxItems_eq E_def)
  with reachable.setmax [OF i] obtain fs1 where rE: "reachable True ?P (E, fs1)" by blast
  have "\<exists>r fs'. AddItem ?P (step_env 0) ''text'' [of_nat 0] E fs1 =
      (r, E\<lparr>Items := sample_item 0 False # Items E\<rparr>, fs')"
    by (rule AddItem_step) (simp_all add: E_def unpinnedCount_def)
  with reachable.add [OF rE] obtain fs2 where
    rF: "reachable True ?P (E\<lparr>Items := sample_item 0 False # Items E\<rparr>, fs2)" by blast
  have ix: "index_where (\<lambda>item. ID item = ''0'')
      (Items (E\<lparr>Items := sample_item 0 False # Items E\<rparr>)) = Some 0"
    by (simp add: E_def sample_item_def itoa_def dec_of_nat.simps)
  obtain r3 fs3 where "TogglePin ?P sample_env ''0'' (E\<lparr>Items := sample_item 0 False # Items E\<rparr>) fs2 =
      (r3, one_pinned_store, fs3)"
    using TogglePin_found [OF ix, of ?P sample_env fs2]
    by (simp add: E_def one_pinned_store_def sample_item_def)
  from reachable.toggle [OF rF _ this] show ?thesis by blast
qed

text \<open>
  C7 at a store the code can reach: the limit is eleven and the only item is pinned.
  No unpinned item is stored, so eleven more could be added before \<open>AddItem\<close> refuses;
  \<open>IsFull\<close> says so, but \<open>IsNearLimit\<close> holds and \<open>GetRemainingSlots\<close> is ten,
  because both count the pinned item.
\<close>

theorem introspection_counts_pinned_items:
  "(\<exists>fs. reachable True sample_platform (one_pinned_store, fs)) \<and>
   maxItems one_pinned_store = 11 \<and>
   unpinnedCount (Items one_pinned_store) = 0 \<and>
   int (length (Items one_pinned_store)) = 1 \<and>
   IsFull one_pinned_store = False \<and>
   IsNearLimit one_pinned_store = True \<and>
   GetRemainingSlots one_pinned_store = 10"
  using reach_one_pinned
  by (simp add: one_pinned_store_def unpinnedCount_def sample_item_def IsFull_def
      IsNearLimit_def GetRemainingSlots_def)


section \<open>Eviction after a reordering\<close>

lemma reach_pinned_first:
  "n \<le> 11 \<Longrightarrow> \<exists>fs. reachable True sample_platform (pinned_first_store n, fs)"
proof (induction n)
  case 0
  let ?P = sample_platform
  let ?init = "\<lparr>Items = [], key = sample_key, maxItems = DefaultMaxItems\<rparr>"
  have i: "reachable True ?P (?init, Map.empty)" by (rule reachable.initial)
  have "\<exists>r fs'. AddItem ?P (step_env 0) ''text'' [of_nat 0] ?init Map.empty =
      (r, ?init\<lparr>Items := sample_item 0 False # Items ?init\<rparr>, fs')"
    by (rule AddItem_step) (simp_all add: unpinnedCount_def DefaultMaxItems_def)
  with reachable.add [OF i] obtain fs1 where
    r1: "reachable True ?P (?init\<lparr>Items := sample_item 0 False # Items ?init\<rparr>, fs1)" by blast
  have ix: "index_where (\<lambda>item. ID item = ''0'')
      (Items (?init\<lparr>Items := sample_item 0 False # Items ?init\<rparr>)) = Some 0"
    by (simp add: sample_item_def itoa_def dec_of_nat.simps)
  obtain r2 fs2 where "TogglePin ?P sample_env ''0''
      (?init\<lparr>Items := sample_item 0 False # Items ?init\<rparr>) fs1 = (r2, pinned_first_store 0, fs2)"
    using TogglePin_found [OF ix, of ?P sample_env fs1]
    by (simp add: pinned_first_store_def sample_item_def)
  from reachable.toggle [OF r1 _ this] show ?case by blast
next
  case (Suc n)
  then obtain fs where r: "reachable True sample_platform (pinned_first_store n, fs)" by auto
  have new: "\<forall>x\<in>set (Items (pinned_first_store n)).
      \<exists>j pin. j < 256 \<and> j \<noteq> Suc n \<and> x = sample_item j pin"
  proof
    fix x assume "x \<in> set (Items (pinned_first_store n))"
    then have "x = sample_item 0 True \<or> x \<in> (\<lambda>j. sample_item j False) ` {1..<Suc n}"
      by (auto simp add: pinned_first_store_def simp del: upt_Suc)
    then have "x = sample_item 0 True \<or> (\<exists>j. j \<le> n \<and> x = sample_item j False)"
    proof
      assume "x = sample_item 0 True"
      then show ?thesis by simp
    next
      assume "x \<in> (\<lambda>j. sample_item j False) ` {1..<Suc n}"
      then obtain j where "j \<in> {1..<Suc n}" "x = sample_item j False" by blast
      then have "j \<le> n \<and> x = sample_item j False" by simp
      then show ?thesis by blast
    qed
    then obtain j pin where "j \<le> n" "x = sample_item j pin" by blast
    with Suc.prems have "j < 256 \<and> j \<noteq> Suc n \<and> x = sample_item j pin" by simp
    then show "\<exists>j pin. j < 256 \<and> j \<noteq> Suc n \<and> x = sample_item j pin" by blast
  qed
  have room: "unpinnedCount (Items (pinned_first_store n)) < maxItems (pinned_first_store n)"
    using Suc.prems
    by (simp add: pinned_first_store_def unpinnedCount_def sample_item_def o_def
        DefaultMaxItems_def)
  from AddItem_step [OF _ new room, of fs] Suc.prems
  obtain r1 fs' where "AddItem sample_platform (step_env (Suc n)) ''text'' [of_nat (Suc n)]
      (pinned_first_store n) fs =
      (r1, (pinned_first_store n)\<lparr>Items := sample_item (Suc n) False #
         Items (pinned_first_store n)\<rparr>, fs')"
    by (auto simp: pinned_first_store_def)
  moreover have "(pinned_first_store n)\<lparr>Items := sample_item (Suc n) False #
         Items (pinned_first_store n)\<rparr> = pinned_first_store (Suc n)"
    by (simp add: pinned_first_store_def)
  ultimately show ?case using reachable.add [OF r] by metis
qed

lemma upt_1_12: "rev [Suc 0..<12] = [11, 10, 9, 8, 7, 6, 5, 4, 3, 2, 1::nat]"
  by (simp add: upt_rec)

lemma reach_reordered: "\<exists>fs. reachable True sample_platform (reordered_store, fs)"
proof -
  let ?P = sample_platform
  obtain fs0 where r0: "reachable True ?P (pinned_first_store 11, fs0)"
    using reach_pinned_first [of 11] by auto
  define A where "A = \<lparr>Items = sample_item 0 True #
      map (\<lambda>j. sample_item j False) [11, 10, 9, 8, 7, 6, 5, 4, 3, 2],
      key = sample_key, maxItems = 11\<rparr>"
  have c0: "0 \<le> maxItems ((pinned_first_store 11)\<lparr>maxItems := 11\<rparr>)" by simp
  have "enforceLimit ((pinned_first_store 11)\<lparr>maxItems := 11\<rparr>) = Some A"
    unfolding enforceLimit_eq [OF c0]
    by (simp add: pinned_first_store_def upt_1_12 sample_item_def A_def DefaultMaxItems_def)
  then have "\<exists>fs'. SetMaxItems ?P sample_env 11 (pinned_first_store 11) fs0 = Some (A, fs')"
    by (simp add: SetMaxItems_eq)
  with reachable.setmax [OF r0] obtain fs1 where rA: "reachable True ?P (A, fs1)" by blast
  have ix: "index_where (\<lambda>item. ID item = ''0'') (Items A) = Some 0"
    by (simp add: A_def sample_item_def itoa_def dec_of_nat.simps)
  obtain r2 fs2 where "TogglePin ?P sample_env ''0'' A fs1 = (r2, reordered_store, fs2)"
    using TogglePin_found [OF ix, of ?P sample_env fs1]
    by (simp add: A_def reordered_store_def sample_item_def)
  from reachable.toggle [OF rA _ this] show ?thesis by blast
qed

text \<open>
  C6 at a store the code can reach. Add content 0 and pin it, add contents 1 to 11, set
  the limit to eleven (the pinned item 0 is put first and item 1 is dropped), unpin
  item 0. The store then holds eleven unpinned items with the oldest, item 0, first.
  \<open>SetMaxItems 10\<close> keeps the first ten in storage order: the oldest item 0 stays and
  the newer item 2 is dropped, so the unpinned items kept are not the newest ones.
\<close>

theorem eviction_keeps_oldest_drops_newer:
  "\<exists>fs fs'.
     reachable True sample_platform (reordered_store, fs) \<and>
     SetMaxItems sample_platform sample_env 10 reordered_store fs =
       Some (reordered_store\<lparr>maxItems := 10,
               Items := map (\<lambda>j. sample_item j False) [0, 11, 10, 9, 8, 7, 6, 5, 4, 3]\<rparr>, fs') \<and>
     \<not> Pinned (sample_item 0 False) \<and> \<not> Pinned (sample_item 2 False) \<and>
     Timestamp (sample_item 0 False) = 0 \<and> Timestamp (sample_item 2 False) = 2"
proof -
  obtain fs where r: "reachable True sample_platform (reordered_store, fs)"
    using reach_reordered by blast
  have c0: "0 \<le> maxItems (reordered_store\<lparr>maxItems := 10\<rparr>)" by simp
  have "enforceLimit (reordered_store\<lparr>maxItems := 10\<rparr>) =
      Some (reordered_store\<lparr>maxItems := 10,
               Items := map (\<lambda>j. sample_item j False) [0, 11, 10, 9, 8, 7, 6, 5, 4, 3]\<rparr>)"
    unfolding enforceLimit_eq [OF c0]
    by (simp add: reordered_store_def sample_item_def)
  then have "\<exists>fs'. SetMaxItems sample_platform sample_env 10 reordered_store fs =
       Some (reordered_store\<lparr>maxItems := 10,
               Items := map (\<lambda>j. sample_item j False) [0, 11, 10, 9, 8, 7, 6, 5, 4, 3]\<rparr>, fs')"
    by (simp add: SetMaxItems_eq)
  with r show ?thesis by (auto simp: sample_item_def)
qed


section \<open>Further properties of the store\<close>

lemma distinct_remove:
  assumes "distinct xs"
  shows "distinct (take i xs @ drop (Suc i) xs)"
proof -
  have "distinct (take i xs @ drop i xs)" using assms by simp
  then have "set (take i xs) \<inter> set (drop i xs) = {}" by (simp only: distinct_append)
  moreover have "set (drop (Suc i) xs) \<subseteq> set (drop i xs)"
    by (rule set_drop_subset_set_drop) simp
  ultimately have "set (take i xs) \<inter> set (drop (Suc i) xs) = {}" by blast
  with assms show ?thesis by simp
qed

lemma set_remove_subset: "set (take i xs @ drop (Suc i) xs) \<subseteq> set xs"
  by (auto dest: in_set_takeD in_set_dropD)

lemma unique_remove:
  assumes "unique_contents xs"
  shows "unique_contents (take i xs @ drop (Suc i) xs)"
proof -
  let ?f = "\<lambda>x. (Hash x, Type x)"
  from assms have d: "distinct xs" and inj: "inj_on ?f (set xs)"
    by (simp_all add: unique_contents_def distinct_map)
  from inj set_remove_subset have "inj_on ?f (set (take i xs @ drop (Suc i) xs))"
    by (rule inj_on_subset)
  with distinct_remove [OF d] show ?thesis
    unfolding unique_contents_def distinct_map by blast
qed

lemma unique_moveToFront:
  assumes u: "unique_contents xs" and i: "i < length xs"
  shows "unique_contents (moveToFront i t xs)"
proof -
  let ?f = "\<lambda>x. (Hash x, Type x)"
  have "filter (\<lambda>x. ?f x = ?f (xs ! i)) (take i xs @ drop (Suc i) xs) = []"
    using u i unfolding unique_contents_def by (rule distinct_pairs_unique)
  then have "\<forall>x\<in>set (take i xs @ drop (Suc i) xs). ?f x \<noteq> ?f (xs ! i)"
    unfolding filter_empty_conv by blast
  then have "?f (xs ! i) \<notin> set (map ?f (take i xs @ drop (Suc i) xs))"
    unfolding set_map by force
  moreover have "distinct (map ?f (take i xs @ drop (Suc i) xs))"
    using unique_remove [OF u, of i] by (simp only: unique_contents_def)
  ultimately have "distinct (?f (xs ! i) # map ?f (take i xs @ drop (Suc i) xs))"
    by (simp only: distinct.simps) blast
  then show ?thesis
    by (simp add: unique_contents_def moveToFront_def)
qed

lemma unique_toggle:
  "unique_contents (xs[i := (xs ! i)\<lparr>Pinned := b\<rparr>]) = unique_contents xs"
proof -
  have "map (\<lambda>x. (Hash x, Type x)) (xs[i := (xs ! i)\<lparr>Pinned := b\<rparr>]) =
        map (\<lambda>x. (Hash x, Type x)) xs"
    by (induction xs arbitrary: i) (auto split: nat.splits)
  then show ?thesis by (simp add: unique_contents_def)
qed

lemma unique_partition:
  assumes "unique_contents xs"
  shows "unique_contents (take a (filter Pinned xs) @ take b (filter (\<lambda>x. \<not> Pinned x) xs))"
proof -
  let ?f = "\<lambda>x. (Hash x, Type x)"
  from assms have d: "distinct xs" and inj: "inj_on ?f (set xs)"
    by (simp_all add: unique_contents_def distinct_map)
  let ?ys = "take a (filter Pinned xs) @ take b (filter (\<lambda>x. \<not> Pinned x) xs)"
  have "set (take a (filter Pinned xs)) \<inter> set (take b (filter (\<lambda>x. \<not> Pinned x) xs)) = {}"
    by (auto dest!: in_set_takeD)
  with d have "distinct ?ys" by simp
  moreover have "set ?ys \<subseteq> set xs" by (auto dest!: in_set_takeD)
  with inj have "inj_on ?f (set ?ys)" by (rule inj_on_subset)
  ultimately show ?thesis
    unfolding unique_contents_def distinct_map by blast
qed

lemma AddItem_unique:
  assumes u: "unique_contents (Items db)"
    and add: "AddItem P e itemType content db fs = (r, db', fs')"
  shows "unique_contents (Items db')"
proof (cases "length content \<le> MaxItemSize")
  case False
  with add u show ?thesis by (simp add: AddItem_def)
next
  case size: True
  let ?m = "\<lambda>x. Hash x = hex_of_bytes (sha256_Sum256 P content) \<and> Type x = itemType"
  show ?thesis
  proof (cases "index_where ?m (Items db)")
    case (Some i)
    from index_where_Some [OF Some] have "i < length (Items db)" by simp
    from unique_moveToFront [OF u this] AddItem_duplicate [OF size Some, of e fs] add
    show ?thesis by auto
  next
    case None
    show ?thesis
    proof (cases "maxItems db \<le> unpinnedCount (Items db)")
      case True
      from AddItem_refused [OF size None True, of e fs] add u show ?thesis by simp
    next
      case False
      then have lt: "unpinnedCount (Items db) < maxItems db" by simp
      show ?thesis
      proof (cases "Encrypt P (rand_reads e 0) content (key db)")
        case (Inl err)
        from AddItem_encrypt_error [OF size None lt Inl, of fs] add u show ?thesis by simp
      next
        case (Inr encrypted)
        obtain r1 fs1 where "saveInternal P e (rand_reads e 1)
            (db\<lparr>Items := newItem P e itemType content encrypted # Items db\<rparr>) fs = (r1, fs1)"
          by (cases "saveInternal P e (rand_reads e 1)
            (db\<lparr>Items := newItem P e itemType content encrypted # Items db\<rparr>) fs")
        from AddItem_inserted [OF size None lt Inr this] add
        have d: "db' = db\<lparr>Items := newItem P e itemType content encrypted # Items db\<rparr>" by simp
        from None have "\<forall>x\<in>set (Items db). \<not> ?m x" by (simp add: index_where_None)
        then have "(hex_of_bytes (sha256_Sum256 P content), itemType) \<notin>
            (\<lambda>x. (Hash x, Type x)) ` set (Items db)" by auto
        with u show ?thesis unfolding d by (simp add: unique_contents_def newItem_def)
      qed
    qed
  qed
qed

lemma reachable_unique:
  assumes "reachable unpin P s"
  shows "unique_contents (Items (fst s))"
  using assms
proof (induction rule: reachable.induct)
  case (initial k fs)
  show ?case by (simp add: unique_contents_def)
next
  case (add db fs e itemType content r db' fs')
  then show ?case using AddItem_unique by simp
next
  case (toggle db fs itemId e r db' fs')
  then show ?case
    by (cases "index_where (\<lambda>item. ID item = itemId) (Items db)")
       (auto simp: TogglePin_def Let_def unique_toggle split: prod.splits)
next
  case (delete db fs e itemId r db' fs')
  then show ?case
    by (cases "index_where (\<lambda>item. ID item = itemId) (Items db)")
       (auto simp: DeleteItem_def Let_def unique_remove split: prod.splits)
next
  case (clear db fs e r db' fs')
  then show ?case
    by (auto simp: ClearAll_def Let_def unique_contents_def split: prod.splits)
next
  case (setmax db fs e n db' fs')
  have c0: "0 \<le> maxItems (db\<lparr>maxItems := max 10 (min 500 n)\<rparr>)" by simp
  from setmax.hyps(2) have "db' = the (enforceLimit (db\<lparr>maxItems := max 10 (min 500 n)\<rparr>))"
    by (simp add: SetMaxItems_eq)
  with enforceLimit_eq [OF c0] setmax.IH show ?case
    by (auto simp: unique_partition)
qed


text \<open>
  X1. One item per content. In every state reached from the empty store by the five
  mutating operations, unpinning included, no two stored items share digest and kind.
\<close>

theorem reachable_unique_contents:
  assumes "reachable unpin P (db, fs)"
  shows "unique_contents (Items db)"
  using reachable_unique [OF assms] by simp

theorem reachable_unique_contents_witness:
  "\<exists>fs. reachable True sample_platform (overfull_store, fs) \<and>
     unique_contents (Items overfull_store)"
proof -
  obtain fs where r: "reachable True sample_platform (overfull_store, fs)"
    using reach_overfull by blast
  from reachable_unique_contents [OF r] r show ?thesis by blast
qed

lemma index_where_pred_cong:
  "map p ys = map p xs \<Longrightarrow> index_where p ys = index_where p xs"
proof (induction xs arbitrary: ys)
  case Nil
  then show ?case by simp
next
  case (Cons x xs)
  then obtain y ys' where "ys = y # ys'" "p y = p x" "map p ys' = map p xs" by (cases ys) auto
  with Cons.IH [of ys'] show ?case by simp
qed

lemma map_toggle:
  assumes "\<And>x b. p (x\<lparr>Pinned := b\<rparr>) = p x"
  shows "map p (xs[i := (xs ! i)\<lparr>Pinned := b\<rparr>]) = map p xs"
  using assms by (induction xs arbitrary: i) (auto split: nat.splits)

text \<open>
  X2. Pinned exemption. When the store is exactly full, a net-new submission is refused
  with \<open>LimitFull\<close> and nothing changes; after \<open>TogglePin\<close> has pinned one of the
  unpinned items, the same submission is no longer refused.
\<close>

theorem pinning_frees_a_slot:
  assumes size: "length content \<le> MaxItemSize"
    and new: "\<forall>x\<in>set (Items db).
                \<not> (Hash x = hex_of_bytes (sha256_Sum256 P content) \<and> Type x = itemType)"
    and full: "unpinnedCount (Items db) = maxItems db"
    and item: "\<exists>x\<in>set (Items db). ID x = itemId"
    and unpinned: "\<not> would_unpin db itemId"
  shows "AddItem P e itemType content db fs = (Some LimitFull, db, fs) \<and>
         (\<forall>e1 e2 fs2.
            fst (AddItem P e2 itemType content
                   (fst (snd (TogglePin P e1 itemId db fs))) fs2) \<noteq> Some LimitFull)"
proof -
  let ?m = "\<lambda>x. Hash x = hex_of_bytes (sha256_Sum256 P content) \<and> Type x = itemType"
  from new have none: "index_where ?m (Items db) = None" by (simp add: index_where_None)
  have a: "AddItem P e itemType content db fs = (Some LimitFull, db, fs)"
    using AddItem_refused [OF size none] full by simp
  from index_where_ex [of "Items db" "\<lambda>item. ID item = itemId"] item
  obtain i where i: "index_where (\<lambda>item. ID item = itemId) (Items db) = Some i" by blast
  with unpinned have np: "\<not> Pinned (Items db ! i)" by (simp add: would_unpin_def)
  have b: "fst (AddItem P e2 itemType content
                   (fst (snd (TogglePin P e1 itemId db fs))) fs2) \<noteq> Some LimitFull"
    for e1 e2 fs2
  proof -
    let ?db1 = "fst (snd (TogglePin P e1 itemId db fs))"
    have items: "Items ?db1 = (Items db)[i := (Items db ! i)\<lparr>Pinned := \<not> Pinned (Items db ! i)\<rparr>]"
      and mx: "maxItems ?db1 = maxItems db"
      by (simp_all add: TogglePin_found [OF i])
    have "map ?m (Items ?db1) = map ?m (Items db)"
      unfolding items by (rule map_toggle) simp
    then have "index_where ?m (Items ?db1) = index_where ?m (Items db)"
      by (rule index_where_pred_cong)
    with none have none1: "index_where ?m (Items ?db1) = None" by (simp only:)
    from TogglePin_count [OF i, of P e1 fs] np full mx
    have "\<not> maxItems ?db1 \<le> unpinnedCount (Items ?db1)" by simp
    with AddItem_LimitFull_iff [OF size none1, of e2 fs2] show ?thesis by simp
  qed
  from a b show ?thesis by blast
qed

theorem pinning_frees_a_slot_witness:
  "AddItem sample_platform sample_env ''text'' [42] sample_store Map.empty =
     (Some LimitFull, sample_store, Map.empty) \<and>
   fst (AddItem sample_platform sample_env ''text'' [42]
          (fst (snd (TogglePin sample_platform sample_env ''9'' sample_store Map.empty)))
          Map.empty) \<noteq> Some LimitFull"
proof -
  have size: "length [42::byte] \<le> MaxItemSize" by (simp add: MaxItemSize_def)
  have new: "\<forall>x\<in>set (Items sample_store).
      \<not> (Hash x = hex_of_bytes (sha256_Sum256 sample_platform [42]) \<and> Type x = ''text'')"
    by (simp add: sample_store_def sample_item_def sample_hash_eq)
  have full: "unpinnedCount (Items sample_store) = maxItems sample_store"
    by (simp add: unpinnedCount_def sample_store_def sample_item_def)
  have item: "\<exists>x\<in>set (Items sample_store). ID x = ''9''"
    by (simp add: sample_store_def sample_item_def itoa_def dec_of_nat.simps)
  have unp: "\<not> would_unpin sample_store ''9''"
    by (simp add: would_unpin_def sample_store_def sample_item_def itoa_def dec_of_nat.simps)
  from pinning_frees_a_slot [OF size new full item unp, of sample_env Map.empty]
  show ?thesis by blast
qed


end
